theory Spec2Isabelle
  imports Main "HOL-Library.Sublist"
begin

section \<open>The Kakao cafe crawler: data model\<close>

text \<open>
  The development embeds \<^verbatim>\<open>app/crawler/kakao_crawler.py\<close> and the part of
  \<^verbatim>\<open>app/core/database.py\<close> it calls.

  \<^item> A place returned by the Kakao Local API is a JSON object whose values are strings
    (the documented schema of the category search); it is a map from keys to strings, so
    that a missing key is \<open>None\<close> and \<^verbatim>\<open>place["k"]\<close> raises \<^verbatim>\<open>KeyError\<close> there.
  \<^item> Python's \<^verbatim>\<open>float\<close> is not interpreted: the type \<open>'f\<close> stands for floating-point
    numbers and the conversion \<^verbatim>\<open>float(s)\<close> is an argument \<open>pyfloat\<close> that either raises
    or returns a number.
  \<^item> A \<^verbatim>\<open>datetime\<close> is an integer (microseconds since the epoch); only its order is used.
  \<^item> Exceptions are values of the type \<open>error\<close>. Only subclasses of \<^verbatim>\<open>Exception\<close> are
    modelled, which every \<^verbatim>\<open>except Exception\<close> of the source catches.
  \<^item> The network and the clock are arguments: within one run the API answers a request
    (coordinates and page) in one way, and the clock is read once per district.
  \<^item> Logging, \<^verbatim>\<open>asyncio.sleep\<close> and \<^verbatim>\<open>elapsed_sec\<close> are left out.
\<close>

type_synonym place = "string \<rightharpoonup> string"

type_synonym datetime = int

datatype error =
    KeyError string
  | ValueError
  | HTTPStatusError nat
  | TransportError
  | PyMongoError

definition CAFE_CATEGORY_CODE :: string where
  "CAFE_CATEGORY_CODE = ''CE7''"

definition MAX_PAGE :: nat where
  "MAX_PAGE = 45"

text \<open>An entry of \<^verbatim>\<open>SEOUL_DISTRICTS\<close>: the keys \<^verbatim>\<open>name\<close>, \<^verbatim>\<open>x\<close>, \<^verbatim>\<open>y\<close>.\<close>

record 'f district_entry =
  d_name :: string
  d_x :: 'f
  d_y :: 'f

text \<open>The dictionary built by \<^verbatim>\<open>_build_cafe_doc\<close>; it always has these thirteen keys.\<close>

record 'f cafe =
  kakao_id :: string
  name :: string
  category_code :: string
  category_name :: string
  address :: string
  road_address :: string
  phone :: string
  cafe_x :: 'f
  cafe_y :: 'f
  place_url :: string
  district :: string
  source :: string
  updated_at :: datetime

text \<open>
  A document of the collection \<^verbatim>\<open>cafes\<close>: the thirteen keys written by \<^verbatim>\<open>$set\<close>, and
  \<^verbatim>\<open>collected_at\<close>, written by \<^verbatim>\<open>$setOnInsert\<close> only. The \<^verbatim>\<open>_id\<close> that the
  server generates is left out.
\<close>

record 'f row =
  doc :: "'f cafe"
  collected_at :: datetime

text \<open>
  The store: the documents of the collection in their natural order, and the outcomes of
  the calls to come that reach the server (\<open>True\<close>: the call raises). A call beyond the
  end of \<open>faults\<close> succeeds.
\<close>

record 'f store =
  rows :: "'f row list"
  faults :: "bool list"

record crawl_result =
  total_fetched :: nat
  inserted :: nat
  updated :: nat
  failed_districts :: "string list"

definition total_saved :: "crawl_result \<Rightarrow> nat" where
  "total_saved r = inserted r + updated r"

section \<open>Normalisation\<close>

definition dict_get :: "place \<Rightarrow> string \<Rightarrow> string \<Rightarrow> string" where
  "dict_get place k dflt = (case place k of None \<Rightarrow> dflt | Some v \<Rightarrow> v)"

text \<open>
  \<^verbatim>\<open>_build_cafe_doc\<close>. The dictionary display evaluates its values in order, so the
  first missing key or failing conversion is the error raised.
\<close>

definition build_cafe_doc ::
  "(string \<Rightarrow> error + 'f) \<Rightarrow> place \<Rightarrow> string \<Rightarrow> datetime \<Rightarrow> error + 'f cafe" where
  "build_cafe_doc pyfloat place dname now =
     (case place ''id'' of
        None \<Rightarrow> Inl (KeyError ''id'')
      | Some pid \<Rightarrow>
     (case place ''place_name'' of
        None \<Rightarrow> Inl (KeyError ''place_name'')
      | Some pname \<Rightarrow>
     (case place ''x'' of
        None \<Rightarrow> Inl (KeyError ''x'')
      | Some sx \<Rightarrow>
     (case pyfloat sx of
        Inl e \<Rightarrow> Inl e
      | Inr fx \<Rightarrow>
     (case place ''y'' of
        None \<Rightarrow> Inl (KeyError ''y'')
      | Some sy \<Rightarrow>
     (case pyfloat sy of
        Inl e \<Rightarrow> Inl e
      | Inr fy \<Rightarrow>
          Inr \<lparr> kakao_id = pid,
                name = pname,
                category_code = CAFE_CATEGORY_CODE,
                category_name = dict_get place ''category_name'' '''',
                address = dict_get place ''address_name'' '''',
                road_address = dict_get place ''road_address_name'' '''',
                phone = dict_get place ''phone'' '''',
                cafe_x = fx,
                cafe_y = fy,
                place_url = dict_get place ''place_url'' '''',
                district = dname,
                source = ''kakao'',
                updated_at = now \<rparr>))))))"

section \<open>The zone collector\<close>

text \<open>
  The pagination loop of \<^verbatim>\<open>_crawl_district\<close>. The argument \<open>fetch\<close> is
  \<^verbatim>\<open>_fetch_page\<close> at the coordinates of the district: \<open>fetch page\<close> is \<open>Inr (docs, is_end)\<close>
  when the call returns and \<open>Inl e\<close> when the request, the status check or the decoding
  raises. Both \<^verbatim>\<open>except\<close> clauses leave the loop.
\<close>

fun crawl_pages ::
  "(nat \<Rightarrow> error + place list \<times> bool) \<Rightarrow> nat list \<Rightarrow> place list \<Rightarrow> place list" where
  "crawl_pages fetch [] places = places"
| "crawl_pages fetch (page # pages) places =
     (case fetch page of
        Inl e \<Rightarrow> places
      | Inr (docs, is_end) \<Rightarrow>
          if is_end then places @ docs
          else crawl_pages fetch pages (places @ docs))"

text \<open>
  The deduplication loop. The dictionary \<^verbatim>\<open>seen\<close> keeps its insertion order, so it is
  an association list that grows at the end. A place whose id is already in \<^verbatim>\<open>seen\<close> is
  skipped before \<^verbatim>\<open>_build_cafe_doc\<close> is called.
\<close>

fun dedup_places ::
  "(string \<Rightarrow> error + 'f) \<Rightarrow> string \<Rightarrow> datetime \<Rightarrow> place list \<Rightarrow>
   (string \<times> 'f cafe) list \<Rightarrow> error + (string \<times> 'f cafe) list" where
  "dedup_places pyfloat dname now [] seen = Inr seen"
| "dedup_places pyfloat dname now (p # ps) seen =
     (case p ''id'' of
        None \<Rightarrow> Inl (KeyError ''id'')
      | Some pid \<Rightarrow>
          if pid \<notin> set (map fst seen) then
            (case build_cafe_doc pyfloat p dname now of
               Inl e \<Rightarrow> Inl e
             | Inr cafe \<Rightarrow> dedup_places pyfloat dname now ps (seen @ [(pid, cafe)]))
          else dedup_places pyfloat dname now ps seen)"

text \<open>The pages that the loop visits: \<^verbatim>\<open>range(1, MAX_PAGE + 1)\<close>.\<close>

definition page_range :: "nat list" where
  "page_range = [1 ..< MAX_PAGE + 1]"

text \<open>
  \<^verbatim>\<open>_crawl_district\<close>. The argument \<open>fetch_page\<close> is the behaviour of the API behind
  \<^verbatim>\<open>_fetch_page\<close> (coordinates and page to outcome) and \<open>now\<close> is the clock read on entry.
\<close>

definition crawl_district ::
  "(string \<Rightarrow> error + 'f) \<Rightarrow> ('f \<Rightarrow> 'f \<Rightarrow> nat \<Rightarrow> error + place list \<times> bool) \<Rightarrow>
   'f district_entry \<Rightarrow> datetime \<Rightarrow> error + 'f cafe list" where
  "crawl_district pyfloat fetch_page d now =
     (let places = crawl_pages (fetch_page (d_x d) (d_y d)) page_range []
      in case dedup_places pyfloat (d_name d) now places [] of
           Inl e \<Rightarrow> Inl e
         | Inr seen \<Rightarrow> Inr (map snd seen))"

section \<open>The store and the reconciler\<close>

text \<open>One round trip to the server: it raises when the next outcome says so.\<close>

definition db_call :: "'f store \<Rightarrow> (error + unit) \<times> 'f store" where
  "db_call s =
     (case faults s of
        [] \<Rightarrow> (Inr (), s)
      | f # fs \<Rightarrow> (if f then Inl PyMongoError else Inr (), s\<lparr>faults := fs\<rparr>))"

text \<open>
  \<^verbatim>\<open>get_cafes_collection\<close>: three \<^verbatim>\<open>create_index\<close> calls, which leave the documents
  as they are.
\<close>

definition get_cafes_collection :: "'f store \<Rightarrow> (error + unit) \<times> 'f store" where
  "get_cafes_collection s =
     (case db_call s of
        (Inl e, s1) \<Rightarrow> (Inl e, s1)
      | (Inr u1, s1) \<Rightarrow>
     (case db_call s1 of
        (Inl e, s2) \<Rightarrow> (Inl e, s2)
      | (Inr u2, s2) \<Rightarrow> db_call s2))"

text \<open>
  What \<^verbatim>\<open>update_one({"kakao_id": k}, {"$set": cafe, "$setOnInsert": {"collected_at": now}},
  upsert=True)\<close> does to the documents: the first document whose \<^verbatim>\<open>kakao_id\<close> is \<open>k\<close> gets
  the keys of \<open>cafe\<close> and keeps \<^verbatim>\<open>collected_at\<close>; when there is none, a new document is
  added. The flag is \<^verbatim>\<open>upserted_id is not None\<close>.
\<close>

fun update_rows :: "string \<Rightarrow> 'f cafe \<Rightarrow> datetime \<Rightarrow> 'f row list \<Rightarrow> 'f row list \<times> bool" where
  "update_rows k cafe now [] = ([\<lparr>doc = cafe, collected_at = now\<rparr>], True)"
| "update_rows k cafe now (r # rs) =
     (if kakao_id (doc r) = k then (r\<lparr>doc := cafe\<rparr> # rs, False)
      else (case update_rows k cafe now rs of (rs', upserted) \<Rightarrow> (r # rs', upserted)))"

text \<open>The call itself: a write that the server rejects changes no document.\<close>

definition update_one ::
  "string \<Rightarrow> 'f cafe \<Rightarrow> datetime \<Rightarrow> 'f store \<Rightarrow> (error + bool) \<times> 'f store" where
  "update_one k cafe now s =
     (case db_call s of
        (Inl e, s1) \<Rightarrow> (Inl e, s1)
      | (Inr u, s1) \<Rightarrow>
          (case update_rows k cafe now (rows s1) of
             (rs, upserted) \<Rightarrow> (Inr upserted, s1\<lparr>rows := rs\<rparr>)))"

text \<open>The loop of \<^verbatim>\<open>_upsert_cafes\<close>, with its two counters.\<close>

fun upsert_loop ::
  "'f cafe list \<Rightarrow> nat \<Rightarrow> nat \<Rightarrow> 'f store \<Rightarrow> (error + nat \<times> nat) \<times> 'f store" where
  "upsert_loop [] ins upd s = (Inr (ins, upd), s)"
| "upsert_loop (cafe # cafes) ins upd s =
     (case update_one (kakao_id cafe) cafe (updated_at cafe) s of
        (Inl e, s1) \<Rightarrow> (Inl e, s1)
      | (Inr upserted, s1) \<Rightarrow>
          if upserted then upsert_loop cafes (ins + 1) upd s1
          else upsert_loop cafes ins (upd + 1) s1)"

definition upsert_cafes :: "'f cafe list \<Rightarrow> 'f store \<Rightarrow> (error + nat \<times> nat) \<times> 'f store" where
  "upsert_cafes cafes s =
     (case get_cafes_collection s of
        (Inl e, s1) \<Rightarrow> (Inl e, s1)
      | (Inr col, s1) \<Rightarrow> upsert_loop cafes 0 0 s1)"

section \<open>The orchestrator\<close>

text \<open>
  The loop of \<^verbatim>\<open>run\<close> over the catalog. The \<^verbatim>\<open>try\<close> block covers the collection and the
  reconciliation of one district; \<^verbatim>\<open>total_fetched\<close> is increased between the two. The
  argument \<open>clock\<close> gives the time read when the collection of a district starts.
\<close>

fun run_loop ::
  "(string \<Rightarrow> error + 'f) \<Rightarrow> ('f \<Rightarrow> 'f \<Rightarrow> nat \<Rightarrow> error + place list \<times> bool) \<Rightarrow>
   ('f district_entry \<Rightarrow> datetime) \<Rightarrow> 'f district_entry list \<Rightarrow>
   crawl_result \<Rightarrow> 'f store \<Rightarrow> crawl_result \<times> 'f store" where
  "run_loop pyfloat fetch_page clock [] result s = (result, s)"
| "run_loop pyfloat fetch_page clock (d # ds) result s =
     (case crawl_district pyfloat fetch_page d (clock d) of
        Inl e \<Rightarrow>
          run_loop pyfloat fetch_page clock ds
            (result\<lparr>failed_districts := failed_districts result @ [d_name d]\<rparr>) s
      | Inr cafes \<Rightarrow>
          (let result1 = result\<lparr>total_fetched := total_fetched result + length cafes\<rparr>
           in case upsert_cafes cafes s of
                (Inl e, s1) \<Rightarrow>
                  run_loop pyfloat fetch_page clock ds
                    (result1\<lparr>failed_districts := failed_districts result1 @ [d_name d]\<rparr>) s1
              | (Inr (ins, upd), s1) \<Rightarrow>
                  run_loop pyfloat fetch_page clock ds
                    (result1\<lparr>inserted := inserted result1 + ins,
                             updated := updated result1 + upd\<rparr>) s1))"

text \<open>
  \<^verbatim>\<open>run\<close>, with the catalog as an argument (the source iterates the constant
  \<^verbatim>\<open>SEOUL_DISTRICTS\<close>, twenty-five entries with distinct names and coordinates).
\<close>

definition run ::
  "(string \<Rightarrow> error + 'f) \<Rightarrow> ('f \<Rightarrow> 'f \<Rightarrow> nat \<Rightarrow> error + place list \<times> bool) \<Rightarrow>
   ('f district_entry \<Rightarrow> datetime) \<Rightarrow> 'f district_entry list \<Rightarrow> 'f store \<Rightarrow>
   crawl_result \<times> 'f store" where
  "run pyfloat fetch_page clock catalog s =
     run_loop pyfloat fetch_page clock catalog
       \<lparr>total_fetched = 0, inserted = 0, updated = 0, failed_districts = []\<rparr> s"

section \<open>Auxiliary definitions\<close>

subsection \<open>The documents of the store\<close>

text \<open>The ids of the stored documents, and \<^verbatim>\<open>find_one({"kakao_id": k})\<close>.\<close>

definition row_ids :: "'f row list \<Rightarrow> string list" where
  "row_ids rs = map (\<lambda>r. kakao_id (doc r)) rs"

definition find_one :: "string \<Rightarrow> 'f row list \<Rightarrow> 'f row option" where
  "find_one k rs = find (\<lambda>r. kakao_id (doc r) = k) rs"

text \<open>
  What a batch does to the documents when no call raises, and the number of documents it
  adds.
\<close>

fun upsert_rows :: "'f cafe list \<Rightarrow> 'f row list \<Rightarrow> 'f row list" where
  "upsert_rows [] rs = rs"
| "upsert_rows (c # cs) rs =
     upsert_rows cs (fst (update_rows (kakao_id c) c (updated_at c) rs))"

fun new_count :: "'f cafe list \<Rightarrow> 'f row list \<Rightarrow> nat" where
  "new_count [] rs = 0"
| "new_count (c # cs) rs =
     (if kakao_id c \<in> set (row_ids rs) then 0 else 1) +
     new_count cs (fst (update_rows (kakao_id c) c (updated_at c) rs))"

text \<open>What a batch does to one stored document: the last cafe of the batch with its id wins.\<close>

fun last_upd :: "'f row \<Rightarrow> 'f cafe list \<Rightarrow> 'f row" where
  "last_upd r [] = r"
| "last_upd r (c # cs) =
     last_upd (if kakao_id c = kakao_id (doc r) then r\<lparr>doc := c\<rparr> else r) cs"

text \<open>
  A sequence of reconciliations, whatever each call to the store answers; the invariant of
  the store; and the order of time between the stored documents and the cafes to come.
\<close>

fun upsert_batches :: "'f cafe list list \<Rightarrow> 'f store \<Rightarrow> 'f store" where
  "upsert_batches [] s = s"
| "upsert_batches (b # bs) s = upsert_batches bs (snd (upsert_cafes b s))"

definition store_inv :: "'f row list \<Rightarrow> bool" where
  "store_inv rs \<longleftrightarrow>
     distinct (row_ids rs) \<and> (\<forall>r\<in>set rs. collected_at r \<le> updated_at (doc r))"

definition not_after :: "'f row list \<Rightarrow> 'f cafe list \<Rightarrow> bool" where
  "not_after rs cs \<longleftrightarrow> (\<forall>r\<in>set rs. \<forall>c\<in>set cs. updated_at (doc r) \<le> updated_at c)"

subsection \<open>The accumulated places\<close>

text \<open>The first place with a given id, in fetch order, and the ids that occur.\<close>

definition first_place :: "string \<Rightarrow> place list \<Rightarrow> place option" where
  "first_place k ps = find (\<lambda>p. p ''id'' = Some k) ps"

definition place_ids :: "place list \<Rightarrow> string set" where
  "place_ids ps = {k. \<exists>p\<in>set ps. p ''id'' = Some k}"

subsection \<open>Summaries\<close>

text \<open>The summary before the first district, and the sum of two summaries.\<close>

definition no_result :: crawl_result where
  "no_result = \<lparr>total_fetched = 0, inserted = 0, updated = 0, failed_districts = []\<rparr>"

definition add_result :: "crawl_result \<Rightarrow> crawl_result \<Rightarrow> crawl_result" where
  "add_result a b =
     \<lparr> total_fetched = total_fetched a + total_fetched b,
       inserted = inserted a + inserted b,
       updated = updated a + updated b,
       failed_districts = failed_districts a @ failed_districts b \<rparr>"

subsection \<open>Example data\<close>

text \<open>
  Coordinates are kept as the strings of the API (\<open>pyfloat\<close> is \<open>Inr\<close>). A place with
  the four required keys, and the cafe it normalises to.
\<close>

definition example_place :: "string \<Rightarrow> place" where
  "example_place k =
     [''id'' \<mapsto> k, ''place_name'' \<mapsto> ''cafe '' @ k, ''x'' \<mapsto> ''127.0'', ''y'' \<mapsto> ''37.5'']"

definition example_cafe :: "string \<Rightarrow> string \<Rightarrow> datetime \<Rightarrow> string cafe" where
  "example_cafe k dn t =
     \<lparr> kakao_id = k, name = ''cafe '' @ k, category_code = ''CE7'', category_name = '''',
       address = '''', road_address = '''', phone = '''', cafe_x = ''127.0'', cafe_y = ''37.5'',
       place_url = '''', district = dn, source = ''kakao'', updated_at = t \<rparr>"

text \<open>
  Three stores: one document and a first call that succeeds; no document; no document and
  a first call that raises.
\<close>

definition example_store :: "string store" where
  "example_store =
     \<lparr> rows = [\<lparr>doc = example_cafe ''1'' ''A'' 5, collected_at = 5\<rparr>], faults = [False] \<rparr>"

definition empty_store :: "string store" where
  "empty_store = \<lparr>rows = [], faults = []\<rparr>"

definition failing_store :: "string store" where
  "failing_store = \<lparr>rows = [], faults = [True]\<rparr>"

text \<open>
  Districts named by a letter, and an API that answers by district: A has three places on
  one last page; B raises a transport error; C has two pages and fails on the third, with
  place 1 on both pages; D repeats place 1 without its name; E has a place without id; any
  other district has place 1 alone.
\<close>

definition example_district :: "string \<Rightarrow> string district_entry" where
  "example_district n = \<lparr>d_name = n, d_x = n, d_y = n\<rparr>"

definition example_fetch_page :: "string \<Rightarrow> string \<Rightarrow> nat \<Rightarrow> error + place list \<times> bool" where
  "example_fetch_page x y page =
     (if x = ''A'' then
        Inr ([example_place ''1'', example_place ''2'', example_place ''3''], True)
      else if x = ''B'' then Inl TransportError
      else if x = ''C'' then
        (if page = 1 then Inr ([example_place ''1'', example_place ''2''], False)
         else if page = 2 then
           Inr ([(example_place ''1'')(''phone'' \<mapsto> ''02''), example_place ''4''], False)
         else Inl (HTTPStatusError 500))
      else if x = ''D'' then
        Inr ([example_place ''1'', (example_place ''1'')(''place_name'' := None)], True)
      else if x = ''E'' then
        Inr ([example_place ''5'', (example_place ''6'')(''id'' := None)], True)
      else Inr ([example_place ''1''], True))"

definition example_docs :: "nat \<Rightarrow> place list" where
  "example_docs i =
     (if i = 1 then [example_place ''1'', example_place ''2'']
      else [(example_place ''1'')(''phone'' \<mapsto> ''02''), example_place ''4''])"

definition example_clock :: "string district_entry \<Rightarrow> datetime" where
  "example_clock d = (if d_name d = ''A'' then 10 else 20)"

section \<open>Documents under one update\<close>

lemma row_ids_simps [simp]:
  "row_ids [] = []" "row_ids (r # rs) = kakao_id (doc r) # row_ids rs"
  by (simp_all add: row_ids_def)

lemma find_one_simps [simp]:
  "find_one k [] = None"
  "find_one k (r # rs) = (if kakao_id (doc r) = k then Some r else find_one k rs)"
  by (simp_all add: find_one_def)

lemma update_rows_upserted: "snd (update_rows k c t rs) \<longleftrightarrow> k \<notin> set (row_ids rs)"
  by (induction rs) (auto split: prod.splits)

lemma row_ids_update_rows:
  "kakao_id c = k \<Longrightarrow>
   row_ids (fst (update_rows k c t rs)) =
     (if k \<in> set (row_ids rs) then row_ids rs else row_ids rs @ [k])"
  by (induction rs) (auto split: prod.splits)

lemma find_one_update_same:
  "kakao_id c = k \<Longrightarrow>
   find_one k (fst (update_rows k c t rs)) =
     Some (case find_one k rs of
             None \<Rightarrow> \<lparr>doc = c, collected_at = t\<rparr>
           | Some r \<Rightarrow> r\<lparr>doc := c\<rparr>)"
  by (induction rs) (auto split: prod.splits)

lemma find_one_update_other:
  "kakao_id c = k \<Longrightarrow> k' \<noteq> k \<Longrightarrow>
   find_one k' (fst (update_rows k c t rs)) = find_one k' rs"
  by (induction rs) (auto split: prod.splits)

lemma set_update_rows:
  "r' \<in> set (fst (update_rows k c t rs)) \<Longrightarrow>
   r' \<in> set rs \<or> r' = \<lparr>doc = c, collected_at = t\<rparr> \<or> (\<exists>r\<in>set rs. r' = r\<lparr>doc := c\<rparr>)"
  by (induction rs arbitrary: r') (auto split: prod.splits if_splits)

lemma distinct_update_rows:
  "kakao_id c = k \<Longrightarrow> distinct (row_ids rs) \<Longrightarrow>
   distinct (row_ids (fst (update_rows k c t rs)))"
  by (simp add: row_ids_update_rows)

lemma set_row_ids_upsert_rows:
  "set (row_ids (upsert_rows cs rs)) = set (row_ids rs) \<union> kakao_id ` set cs"
  by (induction cs arbitrary: rs) (auto simp: row_ids_update_rows)

lemma new_count_present:
  "kakao_id ` set cs \<subseteq> set (row_ids rs) \<Longrightarrow> new_count cs rs = 0"
  by (induction cs arbitrary: rs) (auto simp: row_ids_update_rows)

lemma new_count_le: "new_count cs rs \<le> length cs"
  by (induction cs arbitrary: rs) (auto intro: le_SucI)

lemma find_one_upsert_rows_other:
  "k \<notin> kakao_id ` set cs \<Longrightarrow> find_one k (upsert_rows cs rs) = find_one k rs"
  by (induction cs arbitrary: rs) (auto simp: find_one_update_other)

lemma find_one_upsert_rows_distinct:
  "distinct (map kakao_id cs) \<Longrightarrow> c \<in> set cs \<Longrightarrow>
   find_one (kakao_id c) (upsert_rows cs rs) =
     Some \<lparr>doc = c,
           collected_at = (case find_one (kakao_id c) rs of
                             None \<Rightarrow> updated_at c
                           | Some r \<Rightarrow> collected_at r)\<rparr>"
proof (induction cs arbitrary: rs)
  case Nil
  then show ?case by simp
next
  case (Cons a cs)
  show ?case
  proof (cases "c = a")
    case True
    with Cons.prems have "kakao_id a \<notin> kakao_id ` set cs" by auto
    then show ?thesis
      using True
      by (simp add: find_one_upsert_rows_other find_one_update_same split: option.splits)
  next
    case False
    with Cons.prems have "c \<in> set cs" and "distinct (map kakao_id cs)"
      by simp_all
    moreover from Cons.prems \<open>c \<in> set cs\<close> have "kakao_id c \<noteq> kakao_id a"
      by (metis distinct.simps(2) image_eqI list.simps(9) set_map)
    ultimately have "c \<in> set cs" "kakao_id c \<noteq> kakao_id a" "distinct (map kakao_id cs)"
      by simp_all
    then show ?thesis
      using Cons.IH by (simp add: find_one_update_other)
  qed
qed

section \<open>Calls to the store\<close>

lemma rows_db_call: "rows (snd (db_call s)) = rows s"
  by (simp add: db_call_def split: list.splits)

lemma db_call_healthy: "faults s = [] \<Longrightarrow> db_call s = (Inr (), s)"
  by (simp add: db_call_def)

lemma db_call_rows: "db_call s = (x, s1) \<Longrightarrow> rows s1 = rows s"
  using rows_db_call [of s] by simp

lemma get_cafes_collection_rows: "get_cafes_collection s = (x, s1) \<Longrightarrow> rows s1 = rows s"
  by (auto simp: get_cafes_collection_def split: prod.splits sum.splits dest!: db_call_rows)

lemma get_cafes_collection_healthy:
  "faults s = [] \<Longrightarrow> get_cafes_collection s = (Inr (), s)"
  by (simp add: get_cafes_collection_def db_call_healthy)

lemma update_one_Inl: "update_one k c t s = (Inl e, s1) \<Longrightarrow> rows s1 = rows s"
  by (auto simp: update_one_def split: prod.splits sum.splits dest!: db_call_rows)

lemma update_one_Inr:
  "update_one k c t s = (Inr b, s1) \<Longrightarrow>
   rows s1 = fst (update_rows k c t (rows s)) \<and> b = (k \<notin> set (row_ids (rows s)))"
  using update_rows_upserted [of k c t "rows s"]
  by (auto simp: update_one_def split: prod.splits sum.splits dest!: db_call_rows)

lemma update_one_healthy:
  "faults s = [] \<Longrightarrow>
   update_one k c t s =
     (Inr (k \<notin> set (row_ids (rows s))), s\<lparr>rows := fst (update_rows k c t (rows s))\<rparr>)"
  using update_rows_upserted [of k c t "rows s"]
  by (auto simp: update_one_def db_call_healthy split: prod.splits)

lemma upsert_loop_Inr:
  "upsert_loop cs i u s = (Inr (i', u'), s') \<Longrightarrow>
   rows s' = upsert_rows cs (rows s) \<and>
   i' = i + new_count cs (rows s) \<and>
   u' = u + (length cs - new_count cs (rows s))"
proof (induction cs arbitrary: i u s)
  case Nil
  then show ?case by simp
next
  case (Cons c cs)
  obtain x s1 where step: "update_one (kakao_id c) c (updated_at c) s = (x, s1)"
    by (cases "update_one (kakao_id c) c (updated_at c) s")
  show ?case
  proof (cases x)
    case (Inl e)
    with Cons.prems step show ?thesis by simp
  next
    case (Inr b)
    note r = update_one_Inr [OF step [unfolded Inr]]
    have le: "new_count cs (rows s1) \<le> length cs" by (rule new_count_le)
    show ?thesis
    proof (cases b)
      case True
      with Cons.prems step Inr have "upsert_loop cs (i + 1) u s1 = (Inr (i', u'), s')" by simp
      from Cons.IH [OF this] r True le show ?thesis by simp
    next
      case False
      with Cons.prems step Inr have "upsert_loop cs i (u + 1) s1 = (Inr (i', u'), s')" by simp
      from Cons.IH [OF this] r False le show ?thesis by simp
    qed
  qed
qed

lemma upsert_loop_healthy:
  "faults s = [] \<Longrightarrow>
   upsert_loop cs i u s =
     (Inr (i + new_count cs (rows s), u + (length cs - new_count cs (rows s))),
      s\<lparr>rows := upsert_rows cs (rows s)\<rparr>)"
proof (induction cs arbitrary: i u s)
  case Nil
  then show ?case by simp
next
  case (Cons c cs)
  let ?s1 = "s\<lparr>rows := fst (update_rows (kakao_id c) c (updated_at c) (rows s))\<rparr>"
  have h: "faults ?s1 = []" using Cons.prems by simp
  have le: "new_count cs (rows ?s1) \<le> length cs" by (rule new_count_le)
  show ?case
    using Cons.IH [OF h] le
    by (simp add: update_one_healthy [OF Cons.prems])
qed

lemma upsert_loop_prefix:
  "\<exists>n\<le>length cs. rows (snd (upsert_loop cs i u s)) = upsert_rows (take n cs) (rows s)"
proof (induction cs arbitrary: i u s)
  case Nil
  then show ?case by simp
next
  case (Cons c cs)
  obtain x s1 where step: "update_one (kakao_id c) c (updated_at c) s = (x, s1)"
    by (cases "update_one (kakao_id c) c (updated_at c) s")
  show ?case
  proof (cases x)
    case (Inl e)
    with step have "rows (snd (upsert_loop (c # cs) i u s)) = upsert_rows (take 0 (c # cs)) (rows s)"
      by (simp add: update_one_Inl)
    then show ?thesis by blast
  next
    case (Inr b)
    note r = update_one_Inr [OF step [unfolded Inr]]
    obtain i1 u1 where
      loop: "upsert_loop (c # cs) i u s = upsert_loop cs i1 u1 s1"
      using step Inr by (cases b) auto
    from Cons.IH [of i1 u1 s1] obtain n where
      n: "n \<le> length cs" "rows (snd (upsert_loop cs i1 u1 s1)) = upsert_rows (take n cs) (rows s1)"
      by blast
    have "rows (snd (upsert_loop (c # cs) i u s)) = upsert_rows (take (Suc n) (c # cs)) (rows s)"
      using n r loop by simp
    moreover have "Suc n \<le> length (c # cs)" using n by simp
    ultimately show ?thesis by blast
  qed
qed

lemma upsert_cafes_Inr:
  "upsert_cafes cs s = (Inr (i, u), s') \<Longrightarrow>
   rows s' = upsert_rows cs (rows s) \<and>
   i = new_count cs (rows s) \<and> u = length cs - new_count cs (rows s)"
  by (auto simp: upsert_cafes_def split: prod.splits sum.splits
      dest!: get_cafes_collection_rows upsert_loop_Inr)

lemma upsert_cafes_healthy:
  "faults s = [] \<Longrightarrow>
   upsert_cafes cs s =
     (Inr (new_count cs (rows s), length cs - new_count cs (rows s)),
      s\<lparr>rows := upsert_rows cs (rows s)\<rparr>)"
  by (simp add: upsert_cafes_def get_cafes_collection_healthy upsert_loop_healthy)

lemma upsert_cafes_prefix:
  "\<exists>n\<le>length cs. rows (snd (upsert_cafes cs s)) = upsert_rows (take n cs) (rows s)"
proof -
  obtain x s1 where g: "get_cafes_collection s = (x, s1)"
    by (cases "get_cafes_collection s")
  note r = get_cafes_collection_rows [OF g]
  show ?thesis
  proof (cases x)
    case (Inl e)
    with g r have "rows (snd (upsert_cafes cs s)) = upsert_rows (take 0 cs) (rows s)"
      by (simp add: upsert_cafes_def)
    then show ?thesis by blast
  next
    case (Inr col)
    with g r upsert_loop_prefix [of cs 0 0 s1] show ?thesis
      by (simp add: upsert_cafes_def)
  qed
qed

section \<open>Repeating a batch\<close>

lemma last_upd_id [simp]: "kakao_id (doc (last_upd r cs)) = kakao_id (doc r)"
  by (induction cs arbitrary: r) auto

lemma last_upd_collected_at [simp]: "collected_at (last_upd r cs) = collected_at r"
  by (induction cs arbitrary: r) auto

lemma last_upd_no_match:
  "\<forall>c\<in>set cs. kakao_id c \<noteq> kakao_id (doc r) \<Longrightarrow> last_upd r cs = r"
  by (induction cs arbitrary: r) auto

lemma last_upd_match:
  "\<exists>c\<in>set cs. kakao_id c = kakao_id (doc r) \<Longrightarrow>
   kakao_id (doc r) = kakao_id (doc r') \<Longrightarrow> collected_at r = collected_at r' \<Longrightarrow>
   last_upd r cs = last_upd (r' :: 'f row) cs"
proof (induction cs arbitrary: r r')
  case Nil
  then show ?case by simp
next
  case (Cons c cs)
  show ?case
  proof (cases "kakao_id c = kakao_id (doc r)")
    case True
    have "r\<lparr>doc := c\<rparr> = r'\<lparr>doc := c\<rparr>"
      using Cons.prems(3) by simp
    with True Cons.prems(2) show ?thesis by simp
  next
    case False
    with Cons.prems have "\<exists>c\<in>set cs. kakao_id c = kakao_id (doc r)" by auto
    from Cons.IH [OF this Cons.prems(2,3)] False Cons.prems(2) show ?thesis by simp
  qed
qed

lemma last_upd_idem: "last_upd (last_upd r cs) cs = last_upd r cs"
proof (cases "\<exists>c\<in>set cs. kakao_id c = kakao_id (doc r)")
  case True
  then have "\<exists>c\<in>set cs. kakao_id c = kakao_id (doc (last_upd r cs))" by simp
  from last_upd_match [OF this, of r] show ?thesis by simp
next
  case False
  then show ?thesis by (simp add: last_upd_no_match)
qed

lemma last_upd_new:
  "last_upd ((last_upd \<lparr>doc = c, collected_at = t\<rparr> cs)\<lparr>doc := c\<rparr>) cs =
   last_upd \<lparr>doc = c, collected_at = t\<rparr> cs"
proof (cases "\<exists>a\<in>set cs. kakao_id a = kakao_id c")
  case True
  let ?r = "(last_upd \<lparr>doc = c, collected_at = t\<rparr> cs)\<lparr>doc := c\<rparr>"
  have "\<exists>a\<in>set cs. kakao_id a = kakao_id (doc ?r)" using True by simp
  from last_upd_match [OF this, of "\<lparr>doc = c, collected_at = t\<rparr>"] show ?thesis by simp
next
  case False
  then show ?thesis by (simp add: last_upd_no_match)
qed

lemma upsert_rows_Cons:
  "upsert_rows cs (r # rs) =
   last_upd r cs # upsert_rows (filter (\<lambda>c. kakao_id c \<noteq> kakao_id (doc r)) cs) rs"
  by (induction cs arbitrary: r rs) (auto split: prod.splits)

lemma upsert_rows_idem_empty: "upsert_rows cs (upsert_rows cs []) = upsert_rows cs []"
proof (induction cs rule: length_induct)
  case (1 cs)
  show ?case
  proof (cases cs)
    case Nil
    then show ?thesis by simp
  next
    case (Cons c cs0)
    let ?new = "\<lparr>doc = c, collected_at = updated_at c\<rparr>"
    let ?rest = "filter (\<lambda>a. kakao_id a \<noteq> kakao_id c) cs0"
    have first: "upsert_rows cs [] = last_upd ?new cs0 # upsert_rows ?rest []"
      using Cons by (simp add: upsert_rows_Cons)
    have "length ?rest < length cs" using Cons by (simp add: le_imp_less_Suc)
    with 1 have ih: "upsert_rows ?rest (upsert_rows ?rest []) = upsert_rows ?rest []"
      by blast
    show ?thesis
      unfolding first
      using Cons ih by (simp add: upsert_rows_Cons last_upd_new)
  qed
qed

lemma upsert_rows_idem: "upsert_rows cs (upsert_rows cs rs) = upsert_rows cs rs"
proof (induction rs arbitrary: cs)
  case Nil
  show ?case by (rule upsert_rows_idem_empty)
next
  case (Cons r rs)
  show ?case
    by (simp add: upsert_rows_Cons last_upd_idem Cons.IH)
qed

lemma new_count_upsert_rows: "new_count cs (upsert_rows cs rs) = 0"
  by (rule new_count_present) (simp add: set_row_ids_upsert_rows)

lemma funpow_fixed: "f x = x \<Longrightarrow> (f ^^ n) x = x"
  by (induction n) simp_all

section \<open>The invariant of the store\<close>

lemma store_inv_update_rows:
  assumes "store_inv rs" and "\<forall>r\<in>set rs. updated_at (doc r) \<le> updated_at c"
  shows "store_inv (fst (update_rows (kakao_id c) c (updated_at c) rs))"
    and "\<forall>r\<in>set (fst (update_rows (kakao_id c) c (updated_at c) rs)).
           updated_at (doc r) \<le> updated_at c"
proof -
  let ?rs' = "fst (update_rows (kakao_id c) c (updated_at c) rs)"
  have each: "collected_at r' \<le> updated_at (doc r') \<and> updated_at (doc r') \<le> updated_at c"
    if "r' \<in> set ?rs'" for r'
  proof -
    from set_update_rows [OF that] consider
      (old) "r' \<in> set rs"
      | (new) "r' = \<lparr>doc = c, collected_at = updated_at c\<rparr>"
      | (upd) r where "r \<in> set rs" "r' = r\<lparr>doc := c\<rparr>"
      by blast
    then show ?thesis
    proof cases
      case old
      with assms show ?thesis by (simp add: store_inv_def)
    next
      case new
      then show ?thesis by simp
    next
      case upd
      with assms have "collected_at r \<le> updated_at (doc r)" "updated_at (doc r) \<le> updated_at c"
        by (simp_all add: store_inv_def)
      with upd show ?thesis by simp
    qed
  qed
  from assms(1) have "distinct (row_ids ?rs')"
    by (simp add: store_inv_def distinct_update_rows)
  with each show "store_inv ?rs'" by (simp add: store_inv_def)
  from each show "\<forall>r\<in>set ?rs'. updated_at (doc r) \<le> updated_at c" by simp
qed

lemma store_inv_upsert_rows:
  "sorted (map updated_at (cs @ later)) \<Longrightarrow> store_inv rs \<Longrightarrow> not_after rs (cs @ later) \<Longrightarrow>
   store_inv (upsert_rows cs rs) \<and> not_after (upsert_rows cs rs) later"
proof (induction cs arbitrary: rs)
  case Nil
  then show ?case by simp
next
  case (Cons c cs)
  let ?rs' = "fst (update_rows (kakao_id c) c (updated_at c) rs)"
  from Cons.prems(3) have b: "\<forall>r\<in>set rs. updated_at (doc r) \<le> updated_at c"
    by (simp add: not_after_def)
  note step = store_inv_update_rows [OF Cons.prems(2) b]
  from Cons.prems(1) have s: "sorted (map updated_at (cs @ later))"
    and le: "\<forall>a\<in>set (cs @ later). updated_at c \<le> updated_at a"
    by auto
  from step(2) le have "not_after ?rs' (cs @ later)"
    unfolding not_after_def by (meson order_trans)
  from Cons.IH [OF s step(1) this] show ?case by simp
qed

lemma store_inv_upsert_cafes:
  assumes "sorted (map updated_at (b @ later))" "store_inv (rows s)" "not_after (rows s) (b @ later)"
  shows "store_inv (rows (snd (upsert_cafes b s))) \<and> not_after (rows (snd (upsert_cafes b s))) later"
proof -
  from upsert_cafes_prefix [of b s] obtain n where
    n: "rows (snd (upsert_cafes b s)) = upsert_rows (take n b) (rows s)" by blast
  have split: "take n b @ (drop n b @ later) = b @ later" by simp
  from store_inv_upsert_rows [of "take n b" "drop n b @ later" "rows s"] assms
  have "store_inv (upsert_rows (take n b) (rows s)) \<and>
        not_after (upsert_rows (take n b) (rows s)) (drop n b @ later)"
    unfolding split by simp
  then show ?thesis
    unfolding n by (auto simp: not_after_def)
qed

lemma store_inv_upsert_batches:
  "sorted (map updated_at (concat bs)) \<Longrightarrow> store_inv (rows s) \<Longrightarrow>
   not_after (rows s) (concat bs) \<Longrightarrow> store_inv (rows (upsert_batches bs s))"
proof (induction bs arbitrary: s)
  case Nil
  then show ?case by simp
next
  case (Cons b bs)
  from Cons.prems have "sorted (map updated_at (b @ concat bs))" by simp
  from store_inv_upsert_cafes [OF this Cons.prems(2)] Cons.prems(3)
  have inv: "store_inv (rows (snd (upsert_cafes b s)))"
    and na: "not_after (rows (snd (upsert_cafes b s))) (concat bs)"
    by simp_all
  from Cons.prems(1) have "sorted (map updated_at (concat bs))"
    by (simp add: sorted_append)
  from Cons.IH [OF this inv na] show ?case by simp
qed

section \<open>Normalisation of one place\<close>

lemma build_cafe_doc_Inr:
  assumes "build_cafe_doc pyfloat place dname now = Inr c"
  obtains pid pname sx fx sy fy where
    "place ''id'' = Some pid" "place ''place_name'' = Some pname"
    "place ''x'' = Some sx" "pyfloat sx = Inr fx"
    "place ''y'' = Some sy" "pyfloat sy = Inr fy"
    "c = \<lparr> kakao_id = pid, name = pname, category_code = CAFE_CATEGORY_CODE,
           category_name = dict_get place ''category_name'' '''',
           address = dict_get place ''address_name'' '''',
           road_address = dict_get place ''road_address_name'' '''',
           phone = dict_get place ''phone'' '''',
           cafe_x = fx, cafe_y = fy,
           place_url = dict_get place ''place_url'' '''',
           district = dname, source = ''kakao'', updated_at = now \<rparr>"
proof -
  obtain pid where 1: "place ''id'' = Some pid"
    using assms by (cases "place ''id''") (simp_all add: build_cafe_doc_def)
  obtain pname where 2: "place ''place_name'' = Some pname"
    using assms 1 by (cases "place ''place_name''") (simp_all add: build_cafe_doc_def)
  obtain sx where 3: "place ''x'' = Some sx"
    using assms 1 2 by (cases "place ''x''") (simp_all add: build_cafe_doc_def)
  obtain fx where 4: "pyfloat sx = Inr fx"
    using assms 1 2 3 by (cases "pyfloat sx") (simp_all add: build_cafe_doc_def)
  obtain sy where 5: "place ''y'' = Some sy"
    using assms 1 2 3 4 by (cases "place ''y''") (simp_all add: build_cafe_doc_def)
  obtain fy where 6: "pyfloat sy = Inr fy"
    using assms 1 2 3 4 5 by (cases "pyfloat sy") (simp_all add: build_cafe_doc_def)
  from assms 1 2 3 4 5 6 that show thesis
    by (simp add: build_cafe_doc_def)
qed

lemma build_example_place:
  "build_cafe_doc Inr (example_place k) dn t = Inr (example_cafe k dn t)"
  by (simp add: build_cafe_doc_def example_place_def example_cafe_def dict_get_def
      CAFE_CATEGORY_CODE_def)

lemma example_first_run:
  "upsert_cafes [example_cafe ''1'' ''B'' 7, example_cafe ''2'' ''B'' 7] example_store =
     (Inr (1, 1),
      \<lparr> rows = [\<lparr>doc = example_cafe ''1'' ''B'' 7, collected_at = 5\<rparr>,
                \<lparr>doc = example_cafe ''2'' ''B'' 7, collected_at = 7\<rparr>], faults = [] \<rparr>)"
  by (simp add: upsert_cafes_def get_cafes_collection_def db_call_def update_one_def
      example_store_def example_cafe_def)

section \<open>What the collector returns\<close>

lemma first_place_simps [simp]:
  "first_place k [] = None"
  "first_place k (p # ps) = (if p ''id'' = Some k then Some p else first_place k ps)"
  by (simp_all add: first_place_def)

lemma place_ids_simps [simp]:
  "place_ids [] = {}"
  "place_ids (p # ps) = (case p ''id'' of None \<Rightarrow> {} | Some k \<Rightarrow> {k}) \<union> place_ids ps"
  by (auto simp: place_ids_def split: option.splits)

lemma first_place_Some: "first_place k ps = Some p \<Longrightarrow> p \<in> set ps \<and> p ''id'' = Some k"
  by (induction ps) (auto split: if_splits)

lemma build_cafe_doc_id:
  "build_cafe_doc pyfloat p dname now = Inr c \<Longrightarrow> p ''id'' = Some (kakao_id c)"
  by (erule build_cafe_doc_Inr) simp

lemma build_cafe_doc_district:
  "build_cafe_doc pyfloat p dname now = Inr c \<Longrightarrow> district c = dname \<and> updated_at c = now"
  by (erule build_cafe_doc_Inr) simp

lemma dedup_places_keys:
  "dedup_places pyfloat dname now ps seen = Inr seen' \<Longrightarrow>
   set (map fst seen') = set (map fst seen) \<union> place_ids ps \<and> (\<forall>p\<in>set ps. p ''id'' \<noteq> None)"
proof (induction ps arbitrary: seen)
  case Nil
  then show ?case by simp
next
  case (Cons p ps)
  from Cons.prems obtain k where k: "p ''id'' = Some k"
    by (cases "p ''id''") simp_all
  show ?case
  proof (cases "k \<in> set (map fst seen)")
    case True
    with Cons.prems k have "dedup_places pyfloat dname now ps seen = Inr seen'" by simp
    from Cons.IH [OF this] k True show ?thesis by auto
  next
    case False
    with Cons.prems k obtain c where
      c: "build_cafe_doc pyfloat p dname now = Inr c"
      and rest: "dedup_places pyfloat dname now ps (seen @ [(k, c)]) = Inr seen'"
      by (cases "build_cafe_doc pyfloat p dname now") simp_all
    from Cons.IH [OF rest] k show ?thesis by auto
  qed
qed

lemma dedup_places_distinct:
  "dedup_places pyfloat dname now ps seen = Inr seen' \<Longrightarrow> distinct (map fst seen) \<Longrightarrow>
   distinct (map fst seen')"
proof (induction ps arbitrary: seen)
  case Nil
  then show ?case by simp
next
  case (Cons p ps)
  from Cons.prems obtain k where k: "p ''id'' = Some k"
    by (cases "p ''id''") simp_all
  show ?case
  proof (cases "k \<in> set (map fst seen)")
    case True
    with Cons.prems k have "dedup_places pyfloat dname now ps seen = Inr seen'" by simp
    from Cons.IH [OF this Cons.prems(2)] show ?thesis .
  next
    case False
    with Cons.prems k obtain c where
      rest: "dedup_places pyfloat dname now ps (seen @ [(k, c)]) = Inr seen'"
      by (cases "build_cafe_doc pyfloat p dname now") simp_all
    from False Cons.prems(2) have "distinct (map fst (seen @ [(k, c)]))" by simp
    from Cons.IH [OF rest this] show ?thesis .
  qed
qed

lemma dedup_places_entry:
  "dedup_places pyfloat dname now ps seen = Inr seen' \<Longrightarrow> (k, c) \<in> set seen' \<Longrightarrow>
   (k, c) \<in> set seen \<or>
   (k \<notin> set (map fst seen) \<and>
    (\<exists>p. first_place k ps = Some p \<and> build_cafe_doc pyfloat p dname now = Inr c))"
proof (induction ps arbitrary: seen)
  case Nil
  then show ?case by simp
next
  case (Cons p ps)
  from Cons.prems obtain k' where k': "p ''id'' = Some k'"
    by (cases "p ''id''") simp_all
  show ?case
  proof (cases "k' \<in> set (map fst seen)")
    case True
    with Cons.prems k' have "dedup_places pyfloat dname now ps seen = Inr seen'" by simp
    from Cons.IH [OF this Cons.prems(2)] k' True show ?thesis by auto
  next
    case False
    with Cons.prems k' obtain c' where
      c': "build_cafe_doc pyfloat p dname now = Inr c'"
      and rest: "dedup_places pyfloat dname now ps (seen @ [(k', c')]) = Inr seen'"
      by (cases "build_cafe_doc pyfloat p dname now") simp_all
    from Cons.IH [OF rest Cons.prems(2)] k' c' False show ?thesis by auto
  qed
qed

lemma filter_distinct_key:
  "distinct (map f xs) \<Longrightarrow> x \<in> set xs \<Longrightarrow> filter (\<lambda>y. f y = f x) xs = [x]"
proof (induction xs)
  case Nil
  then show ?case by simp
next
  case (Cons a xs)
  show ?case
  proof (cases "x = a")
    case True
    with Cons.prems have "f x \<notin> f ` set xs" by simp
    then have "\<forall>y\<in>set xs. f y \<noteq> f x" by (metis imageI)
    then have "filter (\<lambda>y. f y = f x) xs = []" by (simp add: filter_empty_conv)
    with True show ?thesis by simp
  next
    case False
    with Cons.prems have "x \<in> set xs" "distinct (map f xs)" by simp_all
    moreover from Cons.prems(1) have "f a \<notin> f ` set xs" by simp
    with \<open>x \<in> set xs\<close> have "f a \<noteq> f x" by (metis imageI)
    ultimately show ?thesis using Cons.IH by simp
  qed
qed

text \<open>What the collector returns, from the places it has accumulated.\<close>

lemma crawl_district_Inr:
  assumes "crawl_district pyfloat fetch_page d now = Inr cafes"
  defines "places \<equiv> crawl_pages (fetch_page (d_x d) (d_y d)) page_range []"
  shows "distinct (map kakao_id cafes)"
    and "kakao_id ` set cafes = place_ids places"
    and "\<forall>p\<in>set places. p ''id'' \<noteq> None"
    and "\<forall>c\<in>set cafes. \<exists>p. first_place (kakao_id c) places = Some p \<and>
           build_cafe_doc pyfloat p (d_name d) now = Inr c"
proof -
  from assms(1) obtain seen where
    seen: "dedup_places pyfloat (d_name d) now places [] = Inr seen"
    and cafes: "cafes = map snd seen"
    unfolding crawl_district_def places_def Let_def
    by (cases "dedup_places pyfloat (d_name d) now
          (crawl_pages (fetch_page (d_x d) (d_y d)) page_range []) []") auto
  have entry: "first_place k places = Some p \<and> build_cafe_doc pyfloat p (d_name d) now = Inr c
      \<Longrightarrow> kakao_id c = k" for k p c
    using first_place_Some [of k places p] build_cafe_doc_id [of pyfloat p "d_name d" now c]
    by auto
  have key: "kakao_id c = k" if "(k, c) \<in> set seen" for k c
    using dedup_places_entry [OF seen that] entry by auto
  then have keys: "map kakao_id cafes = map fst seen"
    unfolding cafes by (auto simp: comp_def)
  from dedup_places_distinct [OF seen] show "distinct (map kakao_id cafes)"
    by (simp add: keys)
  from dedup_places_keys [OF seen] keys show "kakao_id ` set cafes = place_ids places"
    by (metis Un_empty_left list.set(1) list.simps(8) set_map)
  from dedup_places_keys [OF seen] show "\<forall>p\<in>set places. p ''id'' \<noteq> None" by simp
  show "\<forall>c\<in>set cafes. \<exists>p. first_place (kakao_id c) places = Some p \<and>
           build_cafe_doc pyfloat p (d_name d) now = Inr c"
  proof
    fix c assume "c \<in> set cafes"
    then obtain k where kc: "(k, c) \<in> set seen" unfolding cafes by auto
    from key [OF kc] dedup_places_entry [OF seen kc]
    show "\<exists>p. first_place (kakao_id c) places = Some p \<and>
           build_cafe_doc pyfloat p (d_name d) now = Inr c" by simp
  qed
qed

lemma crawl_pages_fail:
  "\<forall>p\<in>set ps. fetch p = Inr (docs p, False) \<Longrightarrow> fetch q = Inl e \<Longrightarrow>
   crawl_pages fetch (ps @ q # rest) acc = acc @ concat (map docs ps)"
  by (induction ps arbitrary: acc) simp_all

lemma upt_split: "i \<le> k \<Longrightarrow> k < j \<Longrightarrow> [i ..< j] = [i ..< k] @ k # [Suc k ..< j]"
proof -
  assume a: "i \<le> k" "k < j"
  then have "[i ..< k + (j - k)] = [i ..< k] @ [k ..< k + (j - k)]"
    by (intro upt_add_eq_append)
  with a have "[i ..< j] = [i ..< k] @ [k ..< j]" by simp
  with a show ?thesis by (simp add: upt_conv_Cons)
qed

lemma pages_split:
  "1 \<le> k \<Longrightarrow> k \<le> MAX_PAGE \<Longrightarrow> page_range = [1 ..< k] @ k # [Suc k ..< MAX_PAGE + 1]"
  unfolding page_range_def by (rule upt_split) simp_all

lemma crawl_pages_first_fail:
  assumes "1 \<le> k" "k \<le> MAX_PAGE"
    and "\<forall>i. 1 \<le> i \<and> i < k \<longrightarrow> fetch i = Inr (docs i, False)"
    and "fetch k = Inl e"
  shows "crawl_pages fetch page_range [] = concat (map docs [1 ..< k])"
proof -
  from assms(3) have "\<forall>p\<in>set [1 ..< k]. fetch p = Inr (docs p, False)" by simp
  from crawl_pages_fail [OF this assms(4), of "[Suc k ..< MAX_PAGE + 1]" "[]"]
  show ?thesis unfolding pages_split [OF assms(1,2)] by simp
qed

lemma page_range_Cons: "page_range = 1 # [2 ..< MAX_PAGE + 1]"
  by (simp add: page_range_def MAX_PAGE_def upt_conv_Cons)

lemma crawl_pages_end_first:
  "fetch 1 = Inr (docs, True) \<Longrightarrow> crawl_pages fetch page_range [] = docs"
  unfolding page_range_Cons by simp

lemma crawl_pages_fail_first:
  "fetch 1 = Inl e \<Longrightarrow> crawl_pages fetch page_range [] = []"
  unfolding page_range_Cons by simp

declare run_loop.simps(2) [simp del]

section \<open>Summaries of a run\<close>

lemma add_result_no_result [simp]: "add_result no_result r = r" "add_result r no_result = r"
  by (simp_all add: add_result_def no_result_def)

lemma add_result_sel [simp]:
  "total_fetched (add_result a b) = total_fetched a + total_fetched b"
  "inserted (add_result a b) = inserted a + inserted b"
  "updated (add_result a b) = updated a + updated b"
  "failed_districts (add_result a b) = failed_districts a @ failed_districts b"
  by (simp_all add: add_result_def)

lemma add_result_update:
  "add_result a (b\<lparr>total_fetched := n\<rparr>) = (add_result a b)\<lparr>total_fetched := total_fetched a + n\<rparr>"
  "add_result a (b\<lparr>inserted := i\<rparr>) = (add_result a b)\<lparr>inserted := inserted a + i\<rparr>"
  "add_result a (b\<lparr>updated := u\<rparr>) = (add_result a b)\<lparr>updated := updated a + u\<rparr>"
  "add_result a (b\<lparr>failed_districts := ns\<rparr>) =
     (add_result a b)\<lparr>failed_districts := failed_districts a @ ns\<rparr>"
  by (simp_all add: add_result_def)

lemma run_loop_add:
  "run_loop pyfloat fetch_page clock ds (add_result a b) s =
     (add_result a (fst (run_loop pyfloat fetch_page clock ds b s)),
      snd (run_loop pyfloat fetch_page clock ds b s))"
proof (induction ds arbitrary: b s)
  case Nil
  then show ?case by simp
next
  case (Cons d ds)
  show ?case
  proof (cases "crawl_district pyfloat fetch_page d (clock d)")
    case (Inl e)
    then show ?thesis
      using Cons.IH [of "b\<lparr>failed_districts := failed_districts b @ [d_name d]\<rparr>" s]
      by (simp add: run_loop.simps(2) add_result_update add.assoc)
  next
    case (Inr cafes)
    obtain x s1 where u: "upsert_cafes cafes s = (x, s1)" by (cases "upsert_cafes cafes s")
    show ?thesis
    proof (cases x)
      case (Inl e)
      with Inr u show ?thesis
        using Cons.IH [of "b\<lparr>total_fetched := total_fetched b + length cafes,
                             failed_districts := failed_districts b @ [d_name d]\<rparr>" s1]
        by (simp add: run_loop.simps(2) add_result_update add.assoc)
    next
      case (Inr counts)
      obtain ins upd where c: "counts = (ins, upd)" by (cases counts)
      with Inr u \<open>crawl_district pyfloat fetch_page d (clock d) = Inr cafes\<close> show ?thesis
        using Cons.IH [of "b\<lparr>total_fetched := total_fetched b + length cafes,
                             inserted := inserted b + ins, updated := updated b + upd\<rparr>" s1]
        by (simp add: run_loop.simps(2) add_result_update add.assoc)
    qed
  qed
qed

lemma run_loop_run:
  "run_loop pyfloat fetch_page clock ds r s =
     (add_result r (fst (run pyfloat fetch_page clock ds s)),
      snd (run pyfloat fetch_page clock ds s))"
  using run_loop_add [of pyfloat fetch_page clock ds r no_result s]
  by (simp add: run_def no_result_def [symmetric])

lemma run_loop_append:
  "run_loop pyfloat fetch_page clock (xs @ ys) r s =
     (case run_loop pyfloat fetch_page clock xs r s of
        (r1, s1) \<Rightarrow> run_loop pyfloat fetch_page clock ys r1 s1)"
proof (induction xs arbitrary: r s)
  case Nil
  then show ?case by simp
next
  case (Cons d xs)
  show ?case
    by (simp add: run_loop.simps(2) Cons.IH Let_def split: sum.splits prod.splits)
qed

lemma run_Nil [simp]: "run pyfloat fetch_page clock [] s = (no_result, s)"
  by (simp add: run_def no_result_def)

lemma run_append:
  "run pyfloat fetch_page clock (xs @ ys) s =
     (add_result (fst (run pyfloat fetch_page clock xs s))
        (fst (run pyfloat fetch_page clock ys (snd (run pyfloat fetch_page clock xs s)))),
      snd (run pyfloat fetch_page clock ys (snd (run pyfloat fetch_page clock xs s))))"
proof -
  obtain r1 s1 where a: "run pyfloat fetch_page clock xs s = (r1, s1)"
    by (cases "run pyfloat fetch_page clock xs s")
  then have "run_loop pyfloat fetch_page clock xs no_result s = (r1, s1)"
    by (simp add: run_def no_result_def)
  then have "run pyfloat fetch_page clock (xs @ ys) s = run_loop pyfloat fetch_page clock ys r1 s1"
    by (simp add: run_def no_result_def [symmetric] run_loop_append)
  with a show ?thesis by (simp add: run_loop_run [of _ _ _ ys r1 s1])
qed

lemma run_Cons_collect_fails:
  assumes "crawl_district pyfloat fetch_page d (clock d) = Inl e"
  shows "run pyfloat fetch_page clock (d # ds) s =
     (add_result (no_result\<lparr>failed_districts := [d_name d]\<rparr>)
        (fst (run pyfloat fetch_page clock ds s)),
      snd (run pyfloat fetch_page clock ds s))"
proof -
  have "run pyfloat fetch_page clock (d # ds) s =
      run_loop pyfloat fetch_page clock ds (no_result\<lparr>failed_districts := [d_name d]\<rparr>) s"
    using assms by (simp add: run_def run_loop.simps(2) no_result_def)
  then show ?thesis by (simp add: run_loop_run [of _ _ _ ds _ s])
qed

lemma run_Cons_upsert_fails:
  assumes "crawl_district pyfloat fetch_page d (clock d) = Inr cafes"
    and "upsert_cafes cafes s = (Inl e, s1)"
  shows "run pyfloat fetch_page clock (d # ds) s =
     (add_result (no_result\<lparr>total_fetched := length cafes, failed_districts := [d_name d]\<rparr>)
        (fst (run pyfloat fetch_page clock ds s1)),
      snd (run pyfloat fetch_page clock ds s1))"
proof -
  have "run pyfloat fetch_page clock (d # ds) s =
      run_loop pyfloat fetch_page clock ds
        (no_result\<lparr>total_fetched := length cafes, failed_districts := [d_name d]\<rparr>) s1"
    using assms by (simp add: run_def run_loop.simps(2) no_result_def)
  then show ?thesis by (simp add: run_loop_run [of _ _ _ ds _ s1])
qed

lemma run_Cons_ok:
  assumes "crawl_district pyfloat fetch_page d (clock d) = Inr cafes"
    and "upsert_cafes cafes s = (Inr (ins, upd), s1)"
  shows "run pyfloat fetch_page clock (d # ds) s =
     (add_result (no_result\<lparr>total_fetched := length cafes, inserted := ins, updated := upd\<rparr>)
        (fst (run pyfloat fetch_page clock ds s1)),
      snd (run pyfloat fetch_page clock ds s1))"
proof -
  have "run pyfloat fetch_page clock (d # ds) s =
      run_loop pyfloat fetch_page clock ds
        (no_result\<lparr>total_fetched := length cafes, inserted := ins, updated := upd\<rparr>) s1"
    using assms by (simp add: run_def run_loop.simps(2) no_result_def)
  then show ?thesis by (simp add: run_loop_run [of _ _ _ ds _ s1])
qed

lemma example_place_id [simp]: "example_place k ''id'' = Some k"
  by (simp add: example_place_def)

lemma example_cafe_id [simp]: "kakao_id (example_cafe k dn t) = k"
  by (simp add: example_cafe_def)

lemma example_pages_C:
  "crawl_pages (example_fetch_page ''C'' ''C'') page_range [] =
     [example_place ''1'', example_place ''2'',
      (example_place ''1'')(''phone'' \<mapsto> ''02''), example_place ''4'']"
  by (simp add: page_range_def MAX_PAGE_def upt_conv_Cons example_fetch_page_def)

lemma example_crawl_C:
  "crawl_district Inr example_fetch_page (example_district ''C'') 20 =
     Inr [example_cafe ''1'' ''C'' 20, example_cafe ''2'' ''C'' 20, example_cafe ''4'' ''C'' 20]"
  by (simp add: crawl_district_def example_district_def example_pages_C build_example_place)

lemma example_upsert_C:
  "upsert_cafes
     [example_cafe ''1'' ''C'' 20, example_cafe ''2'' ''C'' 20, example_cafe ''4'' ''C'' 20]
     empty_store =
   (Inr (3, 0),
    \<lparr>rows = [\<lparr>doc = example_cafe ''1'' ''C'' 20, collected_at = 20\<rparr>,
             \<lparr>doc = example_cafe ''2'' ''C'' 20, collected_at = 20\<rparr>,
             \<lparr>doc = example_cafe ''4'' ''C'' 20, collected_at = 20\<rparr>], faults = []\<rparr>)"
  by (simp add: upsert_cafes_def get_cafes_collection_def db_call_def update_one_def
      empty_store_def example_cafe_def)

lemma example_crawl_A:
  "crawl_district Inr example_fetch_page (example_district ''A'') t =
     Inr [example_cafe ''1'' ''A'' t, example_cafe ''2'' ''A'' t, example_cafe ''3'' ''A'' t]"
  by (simp add: crawl_district_def example_district_def page_range_Cons example_fetch_page_def
      build_example_place)

lemma example_crawl_B:
  "crawl_district Inr example_fetch_page (example_district ''B'') t = Inr []"
  by (simp add: crawl_district_def example_district_def page_range_Cons example_fetch_page_def)

lemma example_crawl_D:
  "crawl_district Inr example_fetch_page (example_district ''D'') t =
     Inr [example_cafe ''1'' ''D'' t]"
  by (simp add: crawl_district_def example_district_def page_range_Cons example_fetch_page_def
      build_example_place)

lemma example_crawl_E:
  "crawl_district Inr example_fetch_page (example_district ''E'') t = Inl (KeyError ''id'')"
  by (simp add: crawl_district_def example_district_def page_range_Cons example_fetch_page_def
      build_example_place)

lemma example_crawl_F:
  "crawl_district Inr example_fetch_page (example_district ''F'') t =
     Inr [example_cafe ''1'' ''F'' t]"
  by (simp add: crawl_district_def example_district_def page_range_Cons example_fetch_page_def
      build_example_place)

lemma example_clock_simps [simp]:
  "example_clock (example_district ''A'') = 10"
  "example_clock (example_district ''B'') = 20"
  "example_clock (example_district ''C'') = 20"
  "example_clock (example_district ''D'') = 20"
  "example_clock (example_district ''E'') = 20"
  "example_clock (example_district ''F'') = 20"
  by (simp_all add: example_clock_def example_district_def)

lemma example_cafe_sel [simp]:
  "updated_at (example_cafe k dn t) = t" "district (example_cafe k dn t) = dn"
  by (simp_all add: example_cafe_def)

lemma example_district_name [simp]: "d_name (example_district n) = n"
  by (simp add: example_district_def)

lemmas example_crawls =
  example_crawl_A example_crawl_B example_crawl_C example_crawl_D example_crawl_E example_crawl_F

lemmas store_calls =
  upsert_cafes_def get_cafes_collection_def db_call_def update_one_def

lemma example_run_AF:
  "run Inr example_fetch_page example_clock [example_district ''A'', example_district ''F'']
     empty_store =
   (\<lparr>total_fetched = 4, inserted = 3, updated = 1, failed_districts = []\<rparr>,
    \<lparr>rows = [\<lparr>doc = example_cafe ''1'' ''F'' 20, collected_at = 10\<rparr>,
             \<lparr>doc = example_cafe ''2'' ''A'' 10, collected_at = 10\<rparr>,
             \<lparr>doc = example_cafe ''3'' ''A'' 10, collected_at = 10\<rparr>], faults = []\<rparr>)"
  by (simp add: run_def run_loop.simps(2) example_crawls store_calls empty_store_def)

lemma run_failed_subseq:
  "subseq (failed_districts (fst (run pyfloat fetch_page clock ds s))) (map d_name ds)"
proof (induction ds arbitrary: s)
  case Nil
  then show ?case by (simp add: no_result_def)
next
  case (Cons d ds)
  show ?case
  proof (cases "crawl_district pyfloat fetch_page d (clock d)")
    case (Inl e)
    then show ?thesis
      using Cons.IH [of s] by (simp add: run_Cons_collect_fails no_result_def)
  next
    case (Inr cafes)
    obtain x s1 where u: "upsert_cafes cafes s = (x, s1)" by (cases "upsert_cafes cafes s")
    show ?thesis
    proof (cases x)
      case (Inl e)
      with Inr u show ?thesis
        using Cons.IH [of s1] by (simp add: run_Cons_upsert_fails no_result_def)
    next
      case (Inr counts)
      obtain ins upd where "counts = (ins, upd)" by (cases counts)
      with Inr u \<open>crawl_district pyfloat fetch_page d (clock d) = Inr cafes\<close> show ?thesis
        using Cons.IH [of s1] by (simp add: run_Cons_ok no_result_def list_emb_Cons)
    qed
  qed
qed

lemma run_failed_length:
  "length (failed_districts (fst (run pyfloat fetch_page clock ds s))) \<le> length ds"
  using run_failed_subseq [of pyfloat fetch_page clock ds s]
  by (metis length_map list_emb_length)

lemma run_all_failed:
  "length (failed_districts (fst (run pyfloat fetch_page clock ds s))) = length ds \<Longrightarrow>
   inserted (fst (run pyfloat fetch_page clock ds s)) = 0 \<and>
   updated (fst (run pyfloat fetch_page clock ds s)) = 0 \<and>
   failed_districts (fst (run pyfloat fetch_page clock ds s)) = map d_name ds"
proof (induction ds arbitrary: s)
  case Nil
  then show ?case by (simp add: no_result_def)
next
  case (Cons d ds)
  show ?case
  proof (cases "crawl_district pyfloat fetch_page d (clock d)")
    case (Inl e)
    with Cons.prems Cons.IH [of s] show ?thesis
      by (simp add: run_Cons_collect_fails no_result_def)
  next
    case (Inr cafes)
    obtain x s1 where u: "upsert_cafes cafes s = (x, s1)" by (cases "upsert_cafes cafes s")
    show ?thesis
    proof (cases x)
      case (Inl e)
      with Inr u Cons.prems Cons.IH [of s1] show ?thesis
        by (simp add: run_Cons_upsert_fails no_result_def)
    next
      case (Inr counts)
      obtain ins upd where "counts = (ins, upd)" by (cases counts)
      with Inr u \<open>crawl_district pyfloat fetch_page d (clock d) = Inr cafes\<close> Cons.prems
        run_failed_length [of pyfloat fetch_page clock ds s1]
      show ?thesis
        by (simp add: run_Cons_ok no_result_def)
    qed
  qed
qed

lemma run_all_collect_fail:
  "\<forall>z\<in>set ds. \<exists>e. crawl_district pyfloat fetch_page z (clock z) = Inl e \<Longrightarrow>
   run pyfloat fetch_page clock ds s = (no_result\<lparr>failed_districts := map d_name ds\<rparr>, s)"
proof (induction ds)
  case Nil
  then show ?case by (simp add: no_result_def)
next
  case (Cons d ds)
  from Cons.prems obtain e where "crawl_district pyfloat fetch_page d (clock d) = Inl e"
    by auto
  from run_Cons_collect_fails [where clock = clock, OF this, of ds s] Cons.IH Cons.prems
  show ?case
    by (simp add: add_result_def no_result_def)
qed

lemma run_isolates_collect_failure:
  assumes "crawl_district pyfloat fetch_page d (clock d) = Inl e"
  shows "run pyfloat fetch_page clock (pre @ d # post) s =
           (add_result (fst (run pyfloat fetch_page clock pre s))
              (add_result (no_result\<lparr>failed_districts := [d_name d]\<rparr>)
                 (fst (run pyfloat fetch_page clock post
                        (snd (run pyfloat fetch_page clock pre s))))),
            snd (run pyfloat fetch_page clock post (snd (run pyfloat fetch_page clock pre s))))"
    and "run pyfloat fetch_page clock (pre @ post) s =
           (add_result (fst (run pyfloat fetch_page clock pre s))
              (fst (run pyfloat fetch_page clock post
                     (snd (run pyfloat fetch_page clock pre s)))),
            snd (run pyfloat fetch_page clock post (snd (run pyfloat fetch_page clock pre s))))"
  by (simp_all add: run_append [of _ _ _ pre]
      run_Cons_collect_fails [where clock = clock, OF assms])

lemma run_isolates_upsert_failure:
  assumes "crawl_district pyfloat fetch_page d (clock d) = Inr cafes"
    and "upsert_cafes cafes (snd (run pyfloat fetch_page clock pre s)) = (Inl e, s2)"
  shows "run pyfloat fetch_page clock (pre @ d # post) s =
           (add_result (fst (run pyfloat fetch_page clock pre s))
              (add_result
                 (no_result\<lparr>total_fetched := length cafes, failed_districts := [d_name d]\<rparr>)
                 (fst (run pyfloat fetch_page clock post s2))),
            snd (run pyfloat fetch_page clock post s2))"
  by (simp add: run_append [of _ _ _ pre]
      run_Cons_upsert_fails [where clock = clock, OF assms])

lemma run_continues_after_success:
  assumes "crawl_district pyfloat fetch_page d (clock d) = Inr cafes"
    and "upsert_cafes cafes (snd (run pyfloat fetch_page clock pre s)) = (Inr (ins, upd), s2)"
  shows "run pyfloat fetch_page clock (pre @ d # post) s =
           (add_result (fst (run pyfloat fetch_page clock pre s))
              (add_result
                 (no_result\<lparr>total_fetched := length cafes, inserted := ins, updated := upd\<rparr>)
                 (fst (run pyfloat fetch_page clock post s2))),
            snd (run pyfloat fetch_page clock post s2))"
  by (simp add: run_append [of _ _ _ pre]
      run_Cons_ok [where clock = clock, OF assms])

lemma crawl_district_malformed:
  assumes "q \<in> set (crawl_pages (fetch_page (d_x d) (d_y d)) page_range [])"
    and "q ''id'' = None \<or>
         (\<exists>k. first_place k (crawl_pages (fetch_page (d_x d) (d_y d)) page_range []) = Some q \<and>
              (q ''place_name'' = None \<or> q ''x'' = None \<or> q ''y'' = None))"
  shows "\<exists>e. crawl_district pyfloat fetch_page d now = Inl e"
proof (cases "crawl_district pyfloat fetch_page d now")
  case (Inl e)
  then show ?thesis by blast
next
  case (Inr cafes)
  let ?places = "crawl_pages (fetch_page (d_x d) (d_y d)) page_range []"
  note facts = crawl_district_Inr [OF Inr]
  from facts(3) assms(1) have "q ''id'' \<noteq> None" by blast
  with assms(2) obtain k where
    k: "first_place k ?places = Some q"
    and missing: "q ''place_name'' = None \<or> q ''x'' = None \<or> q ''y'' = None"
    by blast
  from first_place_Some [OF k] have "k \<in> place_ids ?places"
    by (auto simp: place_ids_def)
  with facts(2) have "k \<in> kakao_id ` set cafes" by simp
  then obtain c where c: "c \<in> set cafes" "kakao_id c = k" by blast
  with facts(4) k have "build_cafe_doc pyfloat q (d_name d) now = Inr c" by auto
  then have "q ''place_name'' \<noteq> None \<and> q ''x'' \<noteq> None \<and> q ''y'' \<noteq> None"
    by (elim build_cafe_doc_Inr) simp
  with missing show ?thesis by blast
qed

lemma example_run_AB:
  "run Inr example_fetch_page example_clock [example_district ''A'', example_district ''B'']
     empty_store =
   (\<lparr>total_fetched = 3, inserted = 3, updated = 0, failed_districts = []\<rparr>,
    \<lparr>rows = [\<lparr>doc = example_cafe ''1'' ''A'' 10, collected_at = 10\<rparr>,
             \<lparr>doc = example_cafe ''2'' ''A'' 10, collected_at = 10\<rparr>,
             \<lparr>doc = example_cafe ''3'' ''A'' 10, collected_at = 10\<rparr>], faults = []\<rparr>)"
  by (simp add: run_def run_loop.simps(2) example_crawls store_calls empty_store_def)

lemma example_fetch_A:
  "example_fetch_page (d_x (example_district ''A'')) (d_y (example_district ''A'')) 1 =
     Inr ([example_place ''1'', example_place ''2'', example_place ''3''], True)"
  by (simp add: example_fetch_page_def example_district_def)

lemma example_fetch_B:
  "example_fetch_page (d_x (example_district ''B'')) (d_y (example_district ''B'')) 1 =
     Inl TransportError"
  by (simp add: example_fetch_page_def example_district_def)

lemma example_pages_D:
  "crawl_pages (example_fetch_page (d_x (example_district ''D'')) (d_y (example_district ''D'')))
     page_range [] =
   [example_place ''1'', (example_place ''1'')(''place_name'' := None)]"
  by (simp add: page_range_Cons example_fetch_page_def example_district_def)

lemma example_pages_E:
  "crawl_pages (example_fetch_page (d_x (example_district ''E'')) (d_y (example_district ''E'')))
     page_range [] =
   [example_place ''5'', (example_place ''6'')(''id'' := None)]"
  by (simp add: page_range_Cons example_fetch_page_def example_district_def)

lemma example_run_D:
  "run Inr example_fetch_page example_clock [example_district ''D''] empty_store =
   (\<lparr>total_fetched = 1, inserted = 1, updated = 0, failed_districts = []\<rparr>,
    \<lparr>rows = [\<lparr>doc = example_cafe ''1'' ''D'' 20, collected_at = 20\<rparr>], faults = []\<rparr>)"
  by (simp add: run_def run_loop.simps(2) example_crawls store_calls empty_store_def)

lemma example_upsert_failing:
  "upsert_cafes cs failing_store = (Inl PyMongoError, empty_store)"
  by (simp add: store_calls failing_store_def empty_store_def)

lemma example_run_A_failing:
  "run Inr example_fetch_page example_clock [example_district ''A''] failing_store =
   (\<lparr>total_fetched = 3, inserted = 0, updated = 0, failed_districts = [''A'']\<rparr>, empty_store)"
  by (simp add: run_def run_loop.simps(2) example_crawls example_upsert_failing)

section \<open>The time of first collection\<close>

lemma collected_at_update_rows:
  "kakao_id c = k' \<Longrightarrow> find_one k rs = Some r \<Longrightarrow>
   \<exists>r'. find_one k (fst (update_rows k' c t rs)) = Some r' \<and> collected_at r' = collected_at r"
  by (cases "k = k'") (simp_all add: find_one_update_same find_one_update_other)

lemma collected_at_upsert_rows:
  "find_one k rs = Some r \<Longrightarrow>
   \<exists>r'. find_one k (upsert_rows cs rs) = Some r' \<and> collected_at r' = collected_at r"
proof (induction cs arbitrary: rs r)
  case Nil
  then show ?case by simp
next
  case (Cons c cs)
  from collected_at_update_rows [OF refl Cons.prems, of c "updated_at c"] obtain r1 where
    r1: "find_one k (fst (update_rows (kakao_id c) c (updated_at c) rs)) = Some r1"
    "collected_at r1 = collected_at r"
    by blast
  from Cons.IH [OF r1(1)] r1(2) show ?case by simp
qed

section \<open>The claims\<close>

text \<open>
  C1 (reconciler idempotency). When a batch has been stored and the store accepts the calls,
  storing the same batch again, any number of times, leaves the store as it is and counts
  every record as updated and none as inserted.
\<close>

theorem upsert_cafes_idempotent:
  assumes "upsert_cafes cafes s = (Inr (ins, upd), s1)" and "faults s1 = []"
  shows "upsert_cafes cafes s1 = (Inr (0, length cafes), s1) \<and>
         ((\<lambda>s. snd (upsert_cafes cafes s)) ^^ n) s1 = s1"
proof -
  from assms(1) have r: "rows s1 = upsert_rows cafes (rows s)"
    by (simp add: upsert_cafes_Inr)
  have "s1\<lparr>rows := upsert_rows cafes (rows s1)\<rparr> = s1"
    by (simp add: r upsert_rows_idem)
  then have again: "upsert_cafes cafes s1 = (Inr (0, length cafes), s1)"
    using upsert_cafes_healthy [OF assms(2), of cafes]
    by (simp add: r new_count_upsert_rows)
  then have "(\<lambda>s. snd (upsert_cafes cafes s)) s1 = s1" by simp
  then have "((\<lambda>s. snd (upsert_cafes cafes s)) ^^ n) s1 = s1" by (rule funpow_fixed)
  with again show ?thesis by simp
qed

theorem upsert_cafes_idempotent_witness:
  "upsert_cafes [example_cafe ''1'' ''B'' 7, example_cafe ''2'' ''B'' 7] example_store =
     (Inr (1, 1),
      \<lparr> rows = [\<lparr>doc = example_cafe ''1'' ''B'' 7, collected_at = 5\<rparr>,
                \<lparr>doc = example_cafe ''2'' ''B'' 7, collected_at = 7\<rparr>], faults = [] \<rparr>) \<and>
   upsert_cafes [example_cafe ''1'' ''B'' 7, example_cafe ''2'' ''B'' 7]
     \<lparr> rows = [\<lparr>doc = example_cafe ''1'' ''B'' 7, collected_at = 5\<rparr>,
               \<lparr>doc = example_cafe ''2'' ''B'' 7, collected_at = 7\<rparr>], faults = [] \<rparr> =
     (Inr (0, 2),
      \<lparr> rows = [\<lparr>doc = example_cafe ''1'' ''B'' 7, collected_at = 5\<rparr>,
                \<lparr>doc = example_cafe ''2'' ''B'' 7, collected_at = 7\<rparr>], faults = [] \<rparr>)"
proof -
  have first: "upsert_cafes [example_cafe ''1'' ''B'' 7, example_cafe ''2'' ''B'' 7] example_store =
     (Inr (1, 1),
      \<lparr> rows = [\<lparr>doc = example_cafe ''1'' ''B'' 7, collected_at = 5\<rparr>,
                \<lparr>doc = example_cafe ''2'' ''B'' 7, collected_at = 7\<rparr>], faults = [] \<rparr>)"
    by (simp add: upsert_cafes_def get_cafes_collection_def db_call_def update_one_def
        example_store_def example_cafe_def)
  from upsert_cafes_idempotent [OF first, of 1] first show ?thesis by simp
qed

text \<open>
  C2 (a place found in several districts). The specification attributes a place that
  several districts report in one run to the first of them, and the comment on the
  deduplication of \<^verbatim>\<open>_crawl_district\<close> gives the overlap of districts as its purpose.
  The dictionary \<^verbatim>\<open>seen\<close> is local to one district, though, and each reconciliation
  writes \<^verbatim>\<open>district\<close> with the other keys. With the districts A and F, in this order,
  both reporting place 1, the run on the empty store ends with one document for id 1, and
  its \<^verbatim>\<open>district\<close> is F, not A.
\<close>

theorem first_zone_attribution_fails:
  "crawl_district Inr example_fetch_page (example_district ''A'')
     (example_clock (example_district ''A'')) =
     Inr [example_cafe ''1'' ''A'' 10, example_cafe ''2'' ''A'' 10, example_cafe ''3'' ''A'' 10] \<and>
   crawl_district Inr example_fetch_page (example_district ''F'')
     (example_clock (example_district ''F'')) = Inr [example_cafe ''1'' ''F'' 20] \<and>
   filter (\<lambda>r. kakao_id (doc r) = ''1'')
     (rows (snd (run Inr example_fetch_page example_clock
        [example_district ''A'', example_district ''F''] empty_store))) =
     [\<lparr>doc = example_cafe ''1'' ''F'' 20, collected_at = 10\<rparr>] \<and>
   district (example_cafe ''1'' ''F'' 20 :: string cafe) = ''F'' \<and>
   district (example_cafe ''1'' ''F'' 20 :: string cafe) \<noteq> d_name (example_district ''A'')"
  by (simp add: example_run_AF example_crawls)

text \<open>
  C3 (end-to-end scenario). With district A returning three places and the end flag on
  page 1 and the page call of district B raising a transport error, the summary of a run
  on the empty store does not list B as failed: the error ends the pagination of B with an
  empty batch, which is reconciled.
\<close>

theorem end_to_end_scenario_counterexample:
  "example_fetch_page (d_x (example_district ''A'')) (d_y (example_district ''A'')) 1 =
     Inr ([example_place ''1'', example_place ''2'', example_place ''3''], True) \<and>
   example_fetch_page (d_x (example_district ''B'')) (d_y (example_district ''B'')) 1 =
     Inl TransportError \<and>
   fst (run Inr example_fetch_page example_clock
          [example_district ''A'', example_district ''B''] empty_store) =
     \<lparr>total_fetched = 3, inserted = 3, updated = 0, failed_districts = []\<rparr> \<and>
   failed_districts (fst (run Inr example_fetch_page example_clock
          [example_district ''A'', example_district ''B''] empty_store)) \<noteq> [''B'']"
  using example_fetch_A example_fetch_B by (simp add: example_run_AB)

text \<open>
  C3, amended. In that scenario, with three places that normalise to cafes with distinct
  ids and a store that is empty and accepts the calls, the summary is
  \<^verbatim>\<open>total_fetched = 3, inserted = 3, updated = 0, failed_districts = []\<close>, and the store
  holds the three cafes.
\<close>

theorem end_to_end_scenario:
  assumes "fetch_page (d_x a) (d_y a) 1 = Inr ([p1, p2, p3], True)"
    and "fetch_page (d_x b) (d_y b) 1 = Inl e"
    and "build_cafe_doc pyfloat p1 (d_name a) (clock a) = Inr c1"
    and "build_cafe_doc pyfloat p2 (d_name a) (clock a) = Inr c2"
    and "build_cafe_doc pyfloat p3 (d_name a) (clock a) = Inr c3"
    and "distinct [kakao_id c1, kakao_id c2, kakao_id c3]"
    and "rows s = []" and "faults s = []"
  shows "run pyfloat fetch_page clock [a, b] s =
           (\<lparr>total_fetched = 3, inserted = 3, updated = 0, failed_districts = []\<rparr>,
            s\<lparr>rows := [\<lparr>doc = c1, collected_at = clock a\<rparr>,
                       \<lparr>doc = c2, collected_at = clock a\<rparr>,
                       \<lparr>doc = c3, collected_at = clock a\<rparr>]\<rparr>)"
proof -
  let ?s1 = "s\<lparr>rows := [\<lparr>doc = c1, collected_at = clock a\<rparr>,
                        \<lparr>doc = c2, collected_at = clock a\<rparr>,
                        \<lparr>doc = c3, collected_at = clock a\<rparr>]\<rparr>"
  have ids: "p1 ''id'' = Some (kakao_id c1)" "p2 ''id'' = Some (kakao_id c2)"
    "p3 ''id'' = Some (kakao_id c3)"
    using assms(3-5) by (simp_all add: build_cafe_doc_id)
  have times: "updated_at c1 = clock a" "updated_at c2 = clock a" "updated_at c3 = clock a"
    using assms(3-5) by (simp_all add: build_cafe_doc_district)
  have pages_a: "crawl_pages (fetch_page (d_x a) (d_y a)) page_range [] = [p1, p2, p3]"
    using assms(1) by (rule crawl_pages_end_first)
  have crawl_a: "crawl_district pyfloat fetch_page a (clock a) = Inr [c1, c2, c3]"
    unfolding crawl_district_def Let_def pages_a
    using assms(3-6) by (auto simp: ids)
  have upsert_a: "upsert_cafes [c1, c2, c3] s = (Inr (3, 0), ?s1)"
    using assms(6) by (auto simp: upsert_cafes_healthy [OF assms(8)] assms(7) times)
  have pages_b: "crawl_pages (fetch_page (d_x b) (d_y b)) page_range [] = []"
    using assms(2) by (rule crawl_pages_fail_first)
  have crawl_b: "crawl_district pyfloat fetch_page b (clock b) = Inr []"
    unfolding crawl_district_def Let_def pages_b by simp
  have "faults ?s1 = []" using assms(8) by simp
  then have upsert_b: "upsert_cafes [] ?s1 = (Inr (0, 0), ?s1)"
    by (simp add: upsert_cafes_healthy)
  show ?thesis
    by (simp add: run_def run_loop.simps(2) crawl_a upsert_a crawl_b upsert_b)
qed

theorem end_to_end_scenario_witness:
  "(example_fetch_page (d_x (example_district ''A'')) (d_y (example_district ''A'')) 1 =
      Inr ([example_place ''1'', example_place ''2'', example_place ''3''], True) \<and>
    example_fetch_page (d_x (example_district ''B'')) (d_y (example_district ''B'')) 1 =
      Inl TransportError \<and>
    rows empty_store = [] \<and> faults empty_store = []) \<and>
   run Inr example_fetch_page example_clock [example_district ''A'', example_district ''B'']
     empty_store =
     (\<lparr>total_fetched = 3, inserted = 3, updated = 0, failed_districts = []\<rparr>,
      empty_store\<lparr>rows :=
        [\<lparr>doc = example_cafe ''1'' ''A'' 10,
          collected_at = example_clock (example_district ''A'')\<rparr>,
         \<lparr>doc = example_cafe ''2'' ''A'' 10,
          collected_at = example_clock (example_district ''A'')\<rparr>,
         \<lparr>doc = example_cafe ''3'' ''A'' 10,
          collected_at = example_clock (example_district ''A'')\<rparr>]\<rparr>)"
proof -
  let ?a = "example_district ''A''" and ?b = "example_district ''B''"
  have h1: "example_fetch_page (d_x ?a) (d_y ?a) 1 =
      Inr ([example_place ''1'', example_place ''2'', example_place ''3''], True)"
    by (simp add: example_fetch_page_def example_district_def)
  have h2: "example_fetch_page (d_x ?b) (d_y ?b) 1 = Inl TransportError"
    by (simp add: example_fetch_page_def example_district_def)
  have h3: "build_cafe_doc Inr (example_place ''1'') (d_name ?a) (example_clock ?a) =
      Inr (example_cafe ''1'' ''A'' 10)"
    and h4: "build_cafe_doc Inr (example_place ''2'') (d_name ?a) (example_clock ?a) =
      Inr (example_cafe ''2'' ''A'' 10)"
    and h5: "build_cafe_doc Inr (example_place ''3'') (d_name ?a) (example_clock ?a) =
      Inr (example_cafe ''3'' ''A'' 10)"
    by (simp_all add: build_example_place)
  have h6: "distinct [kakao_id (example_cafe ''1'' ''A'' 10 :: string cafe),
      kakao_id (example_cafe ''2'' ''A'' 10 :: string cafe),
      kakao_id (example_cafe ''3'' ''A'' 10 :: string cafe)]"
    by simp
  have h7: "rows empty_store = []" and h8: "faults empty_store = []"
    by (simp_all add: empty_store_def)
  from end_to_end_scenario
    [where fetch_page = example_fetch_page and clock = example_clock and pyfloat = Inr
       and a = ?a and b = ?b, OF h1 h2 h3 h4 h5 h6 h7 h8]
    h1 h2 h7 h8
  show ?thesis by blast
qed

text \<open>
  C4 (first-seen immutability). No reconciliation, finished or interrupted by an error of
  the store, changes the \<^verbatim>\<open>collected_at\<close> of a stored document. When a batch with
  distinct ids has been stored, the document of each of its cafes holds the keys of that
  cafe, and its \<^verbatim>\<open>collected_at\<close> is the one it had before when a document with that id
  existed, and the \<^verbatim>\<open>updated_at\<close> of the cafe when the document is new. Documents with
  other ids are as they were.
\<close>

theorem first_seen_immutable:
  "(\<forall>k r. find_one k (rows s) = Some r \<longrightarrow>
      (\<exists>r'. find_one k (rows (snd (upsert_cafes cafes s))) = Some r' \<and>
            collected_at r' = collected_at r)) \<and>
   (\<forall>ins upd s' c.
      upsert_cafes cafes s = (Inr (ins, upd), s') \<and> distinct (map kakao_id cafes) \<and>
      c \<in> set cafes \<longrightarrow>
      (case find_one (kakao_id c) (rows s) of
         Some r \<Rightarrow>
           find_one (kakao_id c) (rows s') = Some \<lparr>doc = c, collected_at = collected_at r\<rparr>
       | None \<Rightarrow>
           find_one (kakao_id c) (rows s') = Some \<lparr>doc = c, collected_at = updated_at c\<rparr>) \<and>
      (\<forall>k. k \<notin> kakao_id ` set cafes \<longrightarrow> find_one k (rows s') = find_one k (rows s)))"
proof (intro conjI allI impI)
  fix k r
  assume "find_one k (rows s) = Some r"
  moreover from upsert_cafes_prefix [of cafes s] obtain n where
    "rows (snd (upsert_cafes cafes s)) = upsert_rows (take n cafes) (rows s)" by blast
  ultimately show "\<exists>r'. find_one k (rows (snd (upsert_cafes cafes s))) = Some r' \<and>
      collected_at r' = collected_at r"
    by (simp add: collected_at_upsert_rows)
next
  fix ins upd s' c
  assume a: "upsert_cafes cafes s = (Inr (ins, upd), s') \<and> distinct (map kakao_id cafes) \<and>
      c \<in> set cafes"
  then have r: "rows s' = upsert_rows cafes (rows s)"
    by (simp add: upsert_cafes_Inr)
  from a have d: "distinct (map kakao_id cafes)" and c: "c \<in> set cafes" by simp_all
  show "case find_one (kakao_id c) (rows s) of
         Some r \<Rightarrow>
           find_one (kakao_id c) (rows s') = Some \<lparr>doc = c, collected_at = collected_at r\<rparr>
       | None \<Rightarrow>
           find_one (kakao_id c) (rows s') = Some \<lparr>doc = c, collected_at = updated_at c\<rparr>"
    unfolding r by (simp add: find_one_upsert_rows_distinct [OF d c] split: option.splits)
  fix k
  assume "k \<notin> kakao_id ` set cafes"
  then show "find_one k (rows s') = find_one k (rows s)"
    unfolding r by (rule find_one_upsert_rows_other)
qed

theorem first_seen_immutable_witness:
  "(find_one ''1'' (rows example_store) =
      Some \<lparr>doc = example_cafe ''1'' ''A'' 5, collected_at = 5\<rparr> \<and>
    find_one ''2'' (rows example_store) = None \<and>
    upsert_cafes [example_cafe ''1'' ''B'' 7, example_cafe ''2'' ''B'' 7] example_store =
      (Inr (1, 1),
       \<lparr>rows = [\<lparr>doc = example_cafe ''1'' ''B'' 7, collected_at = 5\<rparr>,
                \<lparr>doc = example_cafe ''2'' ''B'' 7, collected_at = 7\<rparr>], faults = []\<rparr>)) \<and>
   (\<exists>r'. find_one ''1''
          (rows (snd (upsert_cafes [example_cafe ''1'' ''B'' 7, example_cafe ''2'' ''B'' 7]
             example_store))) = Some r' \<and>
        collected_at r' = 5) \<and>
   find_one ''1''
     [\<lparr>doc = example_cafe ''1'' ''B'' 7, collected_at = 5\<rparr>,
      \<lparr>doc = example_cafe ''2'' ''B'' 7, collected_at = 7\<rparr>] =
     Some \<lparr>doc = example_cafe ''1'' ''B'' 7, collected_at = 5\<rparr> \<and>
   find_one ''2''
     [\<lparr>doc = example_cafe ''1'' ''B'' 7, collected_at = 5\<rparr>,
      \<lparr>doc = example_cafe ''2'' ''B'' 7, collected_at = 7\<rparr>] =
     Some \<lparr>doc = example_cafe ''2'' ''B'' 7, collected_at = 7\<rparr>"
proof -
  let ?batch = "[example_cafe ''1'' ''B'' 7, example_cafe ''2'' ''B'' 7 :: string cafe]"
  let ?s1 = "\<lparr>rows = [\<lparr>doc = example_cafe ''1'' ''B'' 7, collected_at = 5\<rparr>,
                     \<lparr>doc = example_cafe ''2'' ''B'' 7, collected_at = 7\<rparr>], faults = []\<rparr>"
  note inst = first_seen_immutable [of example_store ?batch]
  have d: "distinct (map kakao_id ?batch)" by simp
  have old: "find_one ''1'' (rows example_store) =
      Some \<lparr>doc = example_cafe ''1'' ''A'' 5, collected_at = 5\<rparr>"
    "find_one ''2'' (rows example_store) = None"
    by (simp_all add: example_store_def)
  have c1: "example_cafe ''1'' ''B'' 7 \<in> set ?batch"
    and c2: "example_cafe ''2'' ''B'' 7 \<in> set ?batch"
    by simp_all
  from inst [THEN conjunct1, rule_format, OF old(1)]
  have kept: "\<exists>r'. find_one ''1''
      (rows (snd (upsert_cafes ?batch example_store))) = Some r' \<and> collected_at r' = 5"
    by simp
  from inst [THEN conjunct2, rule_format, OF conjI [OF example_first_run conjI [OF d c1]],
      THEN conjunct1]
  have one: "find_one ''1'' (rows ?s1) =
      Some \<lparr>doc = example_cafe ''1'' ''B'' 7, collected_at = 5\<rparr>"
    by (simp add: old)
  from inst [THEN conjunct2, rule_format, OF conjI [OF example_first_run conjI [OF d c2]],
      THEN conjunct1]
  have two: "find_one ''2'' (rows ?s1) =
      Some \<lparr>doc = example_cafe ''2'' ''B'' 7, collected_at = 7\<rparr>"
    by (simp add: old)
  from old example_first_run kept one two show ?thesis by (intro conjI) simp_all
qed

text \<open>
  C5 (deduplication within a district). When the collector returns, every id that occurs
  among the accumulated places, however often and on whichever pages, has exactly one cafe
  in the result, and that cafe is built from the first place with that id in fetch order.
\<close>

theorem dedup_keeps_first_occurrence:
  assumes "crawl_district pyfloat fetch_page d now = Inr cafes"
    and "p \<in> set (crawl_pages (fetch_page (d_x d) (d_y d)) page_range [])"
    and "p ''id'' = Some k"
  shows "\<exists>c q. filter (\<lambda>c. kakao_id c = k) cafes = [c] \<and>
           first_place k (crawl_pages (fetch_page (d_x d) (d_y d)) page_range []) = Some q \<and>
           build_cafe_doc pyfloat q (d_name d) now = Inr c"
proof -
  let ?places = "crawl_pages (fetch_page (d_x d) (d_y d)) page_range []"
  note facts = crawl_district_Inr [OF assms(1)]
  from assms(2,3) have "k \<in> place_ids ?places" by (auto simp: place_ids_def)
  with facts(2) have "k \<in> kakao_id ` set cafes" by simp
  then obtain c where c: "c \<in> set cafes" "kakao_id c = k" by blast
  from filter_distinct_key [OF facts(1) c(1)] c(2)
  have one: "filter (\<lambda>c. kakao_id c = k) cafes = [c]" by simp
  from facts(4) c obtain q where
    "first_place k ?places = Some q" "build_cafe_doc pyfloat q (d_name d) now = Inr c"
    by blast
  with one show ?thesis by blast
qed

theorem dedup_keeps_first_occurrence_witness:
  "(crawl_district Inr example_fetch_page (example_district ''C'') 20 =
      Inr [example_cafe ''1'' ''C'' 20, example_cafe ''2'' ''C'' 20, example_cafe ''4'' ''C'' 20] \<and>
    (example_place ''1'')(''phone'' \<mapsto> ''02'') \<in>
      set (crawl_pages
        (example_fetch_page (d_x (example_district ''C'')) (d_y (example_district ''C'')))
        page_range []) \<and>
    ((example_place ''1'')(''phone'' \<mapsto> ''02'')) ''id'' = Some ''1'' \<and>
    first_place ''1'' (crawl_pages
        (example_fetch_page (d_x (example_district ''C'')) (d_y (example_district ''C'')))
        page_range []) = Some (example_place ''1'')) \<and>
   (\<exists>c q. filter (\<lambda>c. kakao_id c = ''1'')
       [example_cafe ''1'' ''C'' 20, example_cafe ''2'' ''C'' 20, example_cafe ''4'' ''C'' 20] = [c] \<and>
     first_place ''1'' (crawl_pages
        (example_fetch_page (d_x (example_district ''C'')) (d_y (example_district ''C'')))
        page_range []) = Some q \<and>
     build_cafe_doc Inr q (d_name (example_district ''C'')) 20 = Inr c)"
proof -
  have pages: "crawl_pages
       (example_fetch_page (d_x (example_district ''C'')) (d_y (example_district ''C'')))
       page_range [] =
     [example_place ''1'', example_place ''2'',
      (example_place ''1'')(''phone'' \<mapsto> ''02''), example_place ''4'']"
    by (simp add: example_district_def example_pages_C)
  have h2: "(example_place ''1'')(''phone'' \<mapsto> ''02'') \<in>
     set (crawl_pages
       (example_fetch_page (d_x (example_district ''C'')) (d_y (example_district ''C'')))
       page_range [])"
    unfolding pages by simp
  have h3: "((example_place ''1'')(''phone'' \<mapsto> ''02'')) ''id'' = Some ''1''"
    by simp
  have first: "first_place ''1'' (crawl_pages
        (example_fetch_page (d_x (example_district ''C'')) (d_y (example_district ''C'')))
        page_range []) = Some (example_place ''1'')"
    unfolding pages by simp
  from example_crawl_C h2 h3 first dedup_keeps_first_occurrence [OF example_crawl_C h2 h3]
  show ?thesis by blast
qed

text \<open>
  C6 (early termination on a fetch failure). When the pages before page \<open>k\<close> return
  without the end flag and the fetch of page \<open>k\<close> raises, the loop stops with exactly the
  places of the pages before \<open>k\<close>; the collector returns their deduplicated cafes, and
  the orchestrator reconciles this partial batch: the district adds its counts to the
  summary, is not listed as failed, and each of its cafes is in the store afterwards.
\<close>

theorem early_termination_on_fetch_failure:
  assumes "1 \<le> k" and "k \<le> MAX_PAGE"
    and "\<forall>i. 1 \<le> i \<and> i < k \<longrightarrow> fetch_page (d_x d) (d_y d) i = Inr (docs i, False)"
    and "fetch_page (d_x d) (d_y d) k = Inl e"
    and "dedup_places pyfloat (d_name d) (clock d) (concat (map docs [1 ..< k])) [] = Inr seen"
    and "upsert_cafes (map snd seen) s = (Inr (ins, upd), s1)"
  shows "crawl_pages (fetch_page (d_x d) (d_y d)) page_range [] =
           concat (map docs [1 ..< k]) \<and>
         crawl_district pyfloat fetch_page d (clock d) = Inr (map snd seen) \<and>
         run_loop pyfloat fetch_page clock (d # ds) result s =
           run_loop pyfloat fetch_page clock ds
             (result\<lparr>total_fetched := total_fetched result + length seen,
                     inserted := inserted result + ins,
                     updated := updated result + upd\<rparr>) s1 \<and>
         (\<forall>c\<in>set (map snd seen). \<exists>r. find_one (kakao_id c) (rows s1) = Some r \<and> doc r = c)"
proof -
  let ?places = "concat (map docs [1 ..< k])"
  have pages: "crawl_pages (fetch_page (d_x d) (d_y d)) page_range [] = ?places"
    using assms(1-4) by (rule crawl_pages_first_fail)
  have crawl: "crawl_district pyfloat fetch_page d (clock d) = Inr (map snd seen)"
    unfolding crawl_district_def Let_def pages assms(5) by simp
  have step: "run_loop pyfloat fetch_page clock (d # ds) result s =
           run_loop pyfloat fetch_page clock ds
             (result\<lparr>total_fetched := total_fetched result + length seen,
                     inserted := inserted result + ins,
                     updated := updated result + upd\<rparr>) s1"
    by (simp add: run_loop.simps(2) crawl assms(6))
  have dist: "distinct (map kakao_id (map snd seen))"
    using crawl by (rule crawl_district_Inr(1))
  have rows: "rows s1 = upsert_rows (map snd seen) (rows s)"
    using assms(6) by (simp add: upsert_cafes_Inr)
  have stored: "\<forall>c\<in>set (map snd seen). \<exists>r. find_one (kakao_id c) (rows s1) = Some r \<and> doc r = c"
  proof
    fix c assume "c \<in> set (map snd seen)"
    from find_one_upsert_rows_distinct [OF dist this, of "rows s"]
    show "\<exists>r. find_one (kakao_id c) (rows s1) = Some r \<and> doc r = c"
      unfolding rows by simp
  qed
  from pages crawl step stored show ?thesis by blast
qed

theorem early_termination_on_fetch_failure_witness:
  "((1::nat) \<le> 3 \<and> 3 \<le> MAX_PAGE \<and>
    example_fetch_page (d_x (example_district ''C'')) (d_y (example_district ''C'')) 1 =
      Inr (example_docs 1, False) \<and>
    example_fetch_page (d_x (example_district ''C'')) (d_y (example_district ''C'')) 2 =
      Inr (example_docs 2, False) \<and>
    example_fetch_page (d_x (example_district ''C'')) (d_y (example_district ''C'')) 3 =
      Inl (HTTPStatusError 500)) \<and>
   crawl_pages (example_fetch_page (d_x (example_district ''C'')) (d_y (example_district ''C'')))
     page_range [] = concat (map example_docs [1 ..< 3]) \<and>
   crawl_district Inr example_fetch_page (example_district ''C'')
     (example_clock (example_district ''C'')) =
     Inr [example_cafe ''1'' ''C'' 20, example_cafe ''2'' ''C'' 20, example_cafe ''4'' ''C'' 20] \<and>
   run Inr example_fetch_page example_clock [example_district ''C''] empty_store =
     (\<lparr>total_fetched = 3, inserted = 3, updated = 0, failed_districts = []\<rparr>,
      \<lparr>rows = [\<lparr>doc = example_cafe ''1'' ''C'' 20, collected_at = 20\<rparr>,
               \<lparr>doc = example_cafe ''2'' ''C'' 20, collected_at = 20\<rparr>,
               \<lparr>doc = example_cafe ''4'' ''C'' 20, collected_at = 20\<rparr>], faults = []\<rparr>)"
proof -
  let ?d = "example_district ''C''"
  let ?seen = "[(''1'', example_cafe ''1'' ''C'' 20), (''2'', example_cafe ''2'' ''C'' 20),
                (''4'', example_cafe ''4'' ''C'' 20)]"
  have h1: "(1::nat) \<le> 3" by simp
  have h2: "3 \<le> MAX_PAGE" by (simp add: MAX_PAGE_def)
  have h3: "\<forall>i. 1 \<le> i \<and> i < 3 \<longrightarrow>
      example_fetch_page (d_x ?d) (d_y ?d) i = Inr (example_docs i, False)"
  proof (intro allI impI)
    fix i :: nat assume "1 \<le> i \<and> i < 3"
    then have "i = 1 \<or> i = 2" by arith
    then show "example_fetch_page (d_x ?d) (d_y ?d) i = Inr (example_docs i, False)"
      by (auto simp: example_fetch_page_def example_district_def example_docs_def)
  qed
  have h4: "example_fetch_page (d_x ?d) (d_y ?d) 3 = Inl (HTTPStatusError 500)"
    by (simp add: example_fetch_page_def example_district_def)
  have docs: "concat (map example_docs [1 ..< 3]) =
     [example_place ''1'', example_place ''2'',
      (example_place ''1'')(''phone'' \<mapsto> ''02''), example_place ''4'']"
    by (simp add: example_docs_def upt_conv_Cons)
  have h5: "dedup_places Inr (d_name ?d) (example_clock ?d)
      (concat (map example_docs [1 ..< 3])) [] = Inr ?seen"
    unfolding docs
    by (simp add: example_district_def example_clock_def build_example_place)
  have h6: "upsert_cafes (map snd ?seen) empty_store =
     (Inr (3, 0),
      \<lparr>rows = [\<lparr>doc = example_cafe ''1'' ''C'' 20, collected_at = 20\<rparr>,
               \<lparr>doc = example_cafe ''2'' ''C'' 20, collected_at = 20\<rparr>,
               \<lparr>doc = example_cafe ''4'' ''C'' 20, collected_at = 20\<rparr>], faults = []\<rparr>)"
    using example_upsert_C by simp
  from early_termination_on_fetch_failure
      [where fetch_page = example_fetch_page and d = ?d and docs = example_docs
         and clock = example_clock and pyfloat = Inr and k = 3 and ds = "[]"
         and result = "\<lparr>total_fetched = 0, inserted = 0, updated = 0, failed_districts = []\<rparr>",
       OF h1 h2 h3 h4 h5 h6]
  show ?thesis
    using h1 h2 h3 [rule_format, of 1] h3 [rule_format, of 2] h4 by (simp add: run_def)
qed

text \<open>
  C7 (failure isolation). The claim that all counts are zero when every district fails
  does not hold: \<^verbatim>\<open>total_fetched\<close> is increased before the reconciliation, so a district
  whose reconciliation raises is still counted there.
\<close>

theorem failure_isolation_counterexample:
  "run Inr example_fetch_page example_clock [example_district ''A''] failing_store =
     (\<lparr>total_fetched = 3, inserted = 0, updated = 0, failed_districts = [''A'']\<rparr>,
      empty_store) \<and>
   failed_districts (fst (run Inr example_fetch_page example_clock
      [example_district ''A''] failing_store)) = map d_name [example_district ''A''] \<and>
   total_fetched (fst (run Inr example_fetch_page example_clock
      [example_district ''A''] failing_store)) \<noteq> 0"
  by (simp add: example_run_A_failing)

text \<open>
  C7, amended. For every catalog the run returns a summary, and \<^verbatim>\<open>failed_districts\<close>
  lists names of the catalog in catalog order. At any position of the catalog: a district
  whose collection raises is listed, adds nothing to the counts and leaves the store as it
  was, so that the rest of the run is the run without it; a district whose reconciliation
  raises is listed and adds nothing to \<^verbatim>\<open>inserted\<close> and \<^verbatim>\<open>updated\<close>, while its batch
  is counted in \<^verbatim>\<open>total_fetched\<close> and the run goes on from the store that the
  interrupted reconciliation left; a district that raises nowhere is not listed and adds
  its counts. When every district is listed, \<^verbatim>\<open>inserted\<close> and \<^verbatim>\<open>updated\<close> are zero
  and the list is the catalog's names; when every collection raises, all counts are zero
  and the store is untouched.
\<close>

theorem failure_isolation:
  "subseq (failed_districts (fst (run pyfloat fetch_page clock catalog s))) (map d_name catalog) \<and>
   (length (failed_districts (fst (run pyfloat fetch_page clock catalog s))) = length catalog \<longrightarrow>
      inserted (fst (run pyfloat fetch_page clock catalog s)) = 0 \<and>
      updated (fst (run pyfloat fetch_page clock catalog s)) = 0 \<and>
      failed_districts (fst (run pyfloat fetch_page clock catalog s)) = map d_name catalog) \<and>
   ((\<forall>z\<in>set catalog. \<exists>e. crawl_district pyfloat fetch_page z (clock z) = Inl e) \<longrightarrow>
      run pyfloat fetch_page clock catalog s =
        (\<lparr>total_fetched = 0, inserted = 0, updated = 0,
          failed_districts = map d_name catalog\<rparr>, s)) \<and>
   ((\<exists>e. crawl_district pyfloat fetch_page d (clock d) = Inl e) \<longrightarrow>
      snd (run pyfloat fetch_page clock (pre @ d # post) s) =
        snd (run pyfloat fetch_page clock (pre @ post) s) \<and>
      total_fetched (fst (run pyfloat fetch_page clock (pre @ d # post) s)) =
        total_fetched (fst (run pyfloat fetch_page clock (pre @ post) s)) \<and>
      inserted (fst (run pyfloat fetch_page clock (pre @ d # post) s)) =
        inserted (fst (run pyfloat fetch_page clock (pre @ post) s)) \<and>
      updated (fst (run pyfloat fetch_page clock (pre @ d # post) s)) =
        updated (fst (run pyfloat fetch_page clock (pre @ post) s)) \<and>
      failed_districts (fst (run pyfloat fetch_page clock (pre @ d # post) s)) =
        failed_districts (fst (run pyfloat fetch_page clock pre s)) @ d_name d #
        failed_districts (fst (run pyfloat fetch_page clock post
          (snd (run pyfloat fetch_page clock pre s))))) \<and>
   (\<forall>cafes e s2.
      crawl_district pyfloat fetch_page d (clock d) = Inr cafes \<and>
      upsert_cafes cafes (snd (run pyfloat fetch_page clock pre s)) = (Inl e, s2) \<longrightarrow>
      snd (run pyfloat fetch_page clock (pre @ d # post) s) =
        snd (run pyfloat fetch_page clock post s2) \<and>
      total_fetched (fst (run pyfloat fetch_page clock (pre @ d # post) s)) =
        total_fetched (fst (run pyfloat fetch_page clock pre s)) + length cafes +
        total_fetched (fst (run pyfloat fetch_page clock post s2)) \<and>
      inserted (fst (run pyfloat fetch_page clock (pre @ d # post) s)) =
        inserted (fst (run pyfloat fetch_page clock pre s)) +
        inserted (fst (run pyfloat fetch_page clock post s2)) \<and>
      updated (fst (run pyfloat fetch_page clock (pre @ d # post) s)) =
        updated (fst (run pyfloat fetch_page clock pre s)) +
        updated (fst (run pyfloat fetch_page clock post s2)) \<and>
      failed_districts (fst (run pyfloat fetch_page clock (pre @ d # post) s)) =
        failed_districts (fst (run pyfloat fetch_page clock pre s)) @ d_name d #
        failed_districts (fst (run pyfloat fetch_page clock post s2))) \<and>
   (\<forall>cafes ins upd s2.
      crawl_district pyfloat fetch_page d (clock d) = Inr cafes \<and>
      upsert_cafes cafes (snd (run pyfloat fetch_page clock pre s)) = (Inr (ins, upd), s2) \<longrightarrow>
      snd (run pyfloat fetch_page clock (pre @ d # post) s) =
        snd (run pyfloat fetch_page clock post s2) \<and>
      total_fetched (fst (run pyfloat fetch_page clock (pre @ d # post) s)) =
        total_fetched (fst (run pyfloat fetch_page clock pre s)) + length cafes +
        total_fetched (fst (run pyfloat fetch_page clock post s2)) \<and>
      inserted (fst (run pyfloat fetch_page clock (pre @ d # post) s)) =
        inserted (fst (run pyfloat fetch_page clock pre s)) + ins +
        inserted (fst (run pyfloat fetch_page clock post s2)) \<and>
      updated (fst (run pyfloat fetch_page clock (pre @ d # post) s)) =
        updated (fst (run pyfloat fetch_page clock pre s)) + upd +
        updated (fst (run pyfloat fetch_page clock post s2)) \<and>
      failed_districts (fst (run pyfloat fetch_page clock (pre @ d # post) s)) =
        failed_districts (fst (run pyfloat fetch_page clock pre s)) @
        failed_districts (fst (run pyfloat fetch_page clock post s2)))"
proof (intro conjI)
  show "subseq (failed_districts (fst (run pyfloat fetch_page clock catalog s)))
      (map d_name catalog)"
    by (rule run_failed_subseq)
next
  show "length (failed_districts (fst (run pyfloat fetch_page clock catalog s))) = length catalog \<longrightarrow>
      inserted (fst (run pyfloat fetch_page clock catalog s)) = 0 \<and>
      updated (fst (run pyfloat fetch_page clock catalog s)) = 0 \<and>
      failed_districts (fst (run pyfloat fetch_page clock catalog s)) = map d_name catalog"
    using run_all_failed [of pyfloat fetch_page clock catalog s] by blast
next
  show "(\<forall>z\<in>set catalog. \<exists>e. crawl_district pyfloat fetch_page z (clock z) = Inl e) \<longrightarrow>
      run pyfloat fetch_page clock catalog s =
        (\<lparr>total_fetched = 0, inserted = 0, updated = 0,
          failed_districts = map d_name catalog\<rparr>, s)"
    using run_all_collect_fail [of catalog pyfloat fetch_page clock s]
    by (simp add: no_result_def)
next
  show "(\<exists>e. crawl_district pyfloat fetch_page d (clock d) = Inl e) \<longrightarrow>
      snd (run pyfloat fetch_page clock (pre @ d # post) s) =
        snd (run pyfloat fetch_page clock (pre @ post) s) \<and>
      total_fetched (fst (run pyfloat fetch_page clock (pre @ d # post) s)) =
        total_fetched (fst (run pyfloat fetch_page clock (pre @ post) s)) \<and>
      inserted (fst (run pyfloat fetch_page clock (pre @ d # post) s)) =
        inserted (fst (run pyfloat fetch_page clock (pre @ post) s)) \<and>
      updated (fst (run pyfloat fetch_page clock (pre @ d # post) s)) =
        updated (fst (run pyfloat fetch_page clock (pre @ post) s)) \<and>
      failed_districts (fst (run pyfloat fetch_page clock (pre @ d # post) s)) =
        failed_districts (fst (run pyfloat fetch_page clock pre s)) @ d_name d #
        failed_districts (fst (run pyfloat fetch_page clock post
          (snd (run pyfloat fetch_page clock pre s))))"
  proof
    assume "\<exists>e. crawl_district pyfloat fetch_page d (clock d) = Inl e"
    then obtain e where e: "crawl_district pyfloat fetch_page d (clock d) = Inl e" by blast
    note iso = run_isolates_collect_failure [where clock = clock, OF e, of pre post s]
    show "snd (run pyfloat fetch_page clock (pre @ d # post) s) =
        snd (run pyfloat fetch_page clock (pre @ post) s) \<and>
      total_fetched (fst (run pyfloat fetch_page clock (pre @ d # post) s)) =
        total_fetched (fst (run pyfloat fetch_page clock (pre @ post) s)) \<and>
      inserted (fst (run pyfloat fetch_page clock (pre @ d # post) s)) =
        inserted (fst (run pyfloat fetch_page clock (pre @ post) s)) \<and>
      updated (fst (run pyfloat fetch_page clock (pre @ d # post) s)) =
        updated (fst (run pyfloat fetch_page clock (pre @ post) s)) \<and>
      failed_districts (fst (run pyfloat fetch_page clock (pre @ d # post) s)) =
        failed_districts (fst (run pyfloat fetch_page clock pre s)) @ d_name d #
        failed_districts (fst (run pyfloat fetch_page clock post
          (snd (run pyfloat fetch_page clock pre s))))"
      unfolding iso by (simp add: no_result_def)
  qed
next
  show "\<forall>cafes e s2.
      crawl_district pyfloat fetch_page d (clock d) = Inr cafes \<and>
      upsert_cafes cafes (snd (run pyfloat fetch_page clock pre s)) = (Inl e, s2) \<longrightarrow>
      snd (run pyfloat fetch_page clock (pre @ d # post) s) =
        snd (run pyfloat fetch_page clock post s2) \<and>
      total_fetched (fst (run pyfloat fetch_page clock (pre @ d # post) s)) =
        total_fetched (fst (run pyfloat fetch_page clock pre s)) + length cafes +
        total_fetched (fst (run pyfloat fetch_page clock post s2)) \<and>
      inserted (fst (run pyfloat fetch_page clock (pre @ d # post) s)) =
        inserted (fst (run pyfloat fetch_page clock pre s)) +
        inserted (fst (run pyfloat fetch_page clock post s2)) \<and>
      updated (fst (run pyfloat fetch_page clock (pre @ d # post) s)) =
        updated (fst (run pyfloat fetch_page clock pre s)) +
        updated (fst (run pyfloat fetch_page clock post s2)) \<and>
      failed_districts (fst (run pyfloat fetch_page clock (pre @ d # post) s)) =
        failed_districts (fst (run pyfloat fetch_page clock pre s)) @ d_name d #
        failed_districts (fst (run pyfloat fetch_page clock post s2))"
  proof (intro allI impI, elim conjE)
    fix cafes e s2
    assume c: "crawl_district pyfloat fetch_page d (clock d) = Inr cafes"
      and u: "upsert_cafes cafes (snd (run pyfloat fetch_page clock pre s)) = (Inl e, s2)"
    note iso = run_isolates_upsert_failure [where clock = clock, OF c u, of post]
    show "snd (run pyfloat fetch_page clock (pre @ d # post) s) =
        snd (run pyfloat fetch_page clock post s2) \<and>
      total_fetched (fst (run pyfloat fetch_page clock (pre @ d # post) s)) =
        total_fetched (fst (run pyfloat fetch_page clock pre s)) + length cafes +
        total_fetched (fst (run pyfloat fetch_page clock post s2)) \<and>
      inserted (fst (run pyfloat fetch_page clock (pre @ d # post) s)) =
        inserted (fst (run pyfloat fetch_page clock pre s)) +
        inserted (fst (run pyfloat fetch_page clock post s2)) \<and>
      updated (fst (run pyfloat fetch_page clock (pre @ d # post) s)) =
        updated (fst (run pyfloat fetch_page clock pre s)) +
        updated (fst (run pyfloat fetch_page clock post s2)) \<and>
      failed_districts (fst (run pyfloat fetch_page clock (pre @ d # post) s)) =
        failed_districts (fst (run pyfloat fetch_page clock pre s)) @ d_name d #
        failed_districts (fst (run pyfloat fetch_page clock post s2))"
      unfolding iso by (simp add: no_result_def)
  qed
next
  show "\<forall>cafes ins upd s2.
      crawl_district pyfloat fetch_page d (clock d) = Inr cafes \<and>
      upsert_cafes cafes (snd (run pyfloat fetch_page clock pre s)) = (Inr (ins, upd), s2) \<longrightarrow>
      snd (run pyfloat fetch_page clock (pre @ d # post) s) =
        snd (run pyfloat fetch_page clock post s2) \<and>
      total_fetched (fst (run pyfloat fetch_page clock (pre @ d # post) s)) =
        total_fetched (fst (run pyfloat fetch_page clock pre s)) + length cafes +
        total_fetched (fst (run pyfloat fetch_page clock post s2)) \<and>
      inserted (fst (run pyfloat fetch_page clock (pre @ d # post) s)) =
        inserted (fst (run pyfloat fetch_page clock pre s)) + ins +
        inserted (fst (run pyfloat fetch_page clock post s2)) \<and>
      updated (fst (run pyfloat fetch_page clock (pre @ d # post) s)) =
        updated (fst (run pyfloat fetch_page clock pre s)) + upd +
        updated (fst (run pyfloat fetch_page clock post s2)) \<and>
      failed_districts (fst (run pyfloat fetch_page clock (pre @ d # post) s)) =
        failed_districts (fst (run pyfloat fetch_page clock pre s)) @
        failed_districts (fst (run pyfloat fetch_page clock post s2))"
  proof (intro allI impI, elim conjE)
    fix cafes ins upd s2
    assume c: "crawl_district pyfloat fetch_page d (clock d) = Inr cafes"
      and u: "upsert_cafes cafes (snd (run pyfloat fetch_page clock pre s)) = (Inr (ins, upd), s2)"
    note iso = run_continues_after_success [where clock = clock, OF c u, of post]
    show "snd (run pyfloat fetch_page clock (pre @ d # post) s) =
        snd (run pyfloat fetch_page clock post s2) \<and>
      total_fetched (fst (run pyfloat fetch_page clock (pre @ d # post) s)) =
        total_fetched (fst (run pyfloat fetch_page clock pre s)) + length cafes +
        total_fetched (fst (run pyfloat fetch_page clock post s2)) \<and>
      inserted (fst (run pyfloat fetch_page clock (pre @ d # post) s)) =
        inserted (fst (run pyfloat fetch_page clock pre s)) + ins +
        inserted (fst (run pyfloat fetch_page clock post s2)) \<and>
      updated (fst (run pyfloat fetch_page clock (pre @ d # post) s)) =
        updated (fst (run pyfloat fetch_page clock pre s)) + upd +
        updated (fst (run pyfloat fetch_page clock post s2)) \<and>
      failed_districts (fst (run pyfloat fetch_page clock (pre @ d # post) s)) =
        failed_districts (fst (run pyfloat fetch_page clock pre s)) @
        failed_districts (fst (run pyfloat fetch_page clock post s2))"
      unfolding iso by (simp add: no_result_def)
  qed
qed

theorem failure_isolation_witness:
  "(crawl_district Inr example_fetch_page (example_district ''E'')
      (example_clock (example_district ''E'')) = Inl (KeyError ''id'') \<and>
    crawl_district Inr example_fetch_page (example_district ''A'')
      (example_clock (example_district ''A'')) =
      Inr [example_cafe ''1'' ''A'' 10, example_cafe ''2'' ''A'' 10, example_cafe ''3'' ''A'' 10] \<and>
    upsert_cafes
      [example_cafe ''1'' ''A'' 10, example_cafe ''2'' ''A'' 10, example_cafe ''3'' ''A'' 10]
      (snd (run Inr example_fetch_page example_clock [] failing_store)) =
      (Inl PyMongoError, empty_store)) \<and>
   run Inr example_fetch_page example_clock [example_district ''E'', example_district ''E'']
     empty_store =
     (\<lparr>total_fetched = 0, inserted = 0, updated = 0,
       failed_districts = map d_name [example_district ''E'', example_district ''E'']\<rparr>,
      empty_store) \<and>
   snd (run Inr example_fetch_page example_clock
          ([example_district ''A''] @ example_district ''E'' # [example_district ''C''])
          empty_store) =
     snd (run Inr example_fetch_page example_clock
          ([example_district ''A''] @ [example_district ''C'']) empty_store) \<and>
   inserted (fst (run Inr example_fetch_page example_clock
          ([example_district ''A''] @ example_district ''E'' # [example_district ''C''])
          empty_store)) =
     inserted (fst (run Inr example_fetch_page example_clock
          ([example_district ''A''] @ [example_district ''C'']) empty_store)) \<and>
   failed_districts (fst (run Inr example_fetch_page example_clock
          ([example_district ''A''] @ example_district ''E'' # [example_district ''C''])
          empty_store)) =
     failed_districts (fst (run Inr example_fetch_page example_clock
          [example_district ''A''] empty_store)) @ d_name (example_district ''E'') #
     failed_districts (fst (run Inr example_fetch_page example_clock [example_district ''C'']
          (snd (run Inr example_fetch_page example_clock [example_district ''A'']
            empty_store)))) \<and>
   total_fetched (fst (run Inr example_fetch_page example_clock
          ([] @ example_district ''A'' # [example_district ''B'']) failing_store)) =
     total_fetched (fst (run Inr example_fetch_page example_clock [] failing_store)) +
     length [example_cafe ''1'' ''A'' 10, example_cafe ''2'' ''A'' 10,
             example_cafe ''3'' ''A'' (10::int) :: string cafe] +
     total_fetched (fst (run Inr example_fetch_page example_clock [example_district ''B'']
          empty_store)) \<and>
   inserted (fst (run Inr example_fetch_page example_clock
          ([] @ example_district ''A'' # [example_district ''B'']) failing_store)) =
     inserted (fst (run Inr example_fetch_page example_clock [] failing_store)) +
     inserted (fst (run Inr example_fetch_page example_clock [example_district ''B'']
          empty_store)) \<and>
   failed_districts (fst (run Inr example_fetch_page example_clock
          ([] @ example_district ''A'' # [example_district ''B'']) failing_store)) =
     failed_districts (fst (run Inr example_fetch_page example_clock [] failing_store)) @
     d_name (example_district ''A'') #
     failed_districts (fst (run Inr example_fetch_page example_clock [example_district ''B'']
          empty_store))"
proof -
  let ?E = "example_district ''E''" and ?A = "example_district ''A''"
  let ?cafes = "[example_cafe ''1'' ''A'' 10, example_cafe ''2'' ''A'' 10,
                 example_cafe ''3'' ''A'' (10::int) :: string cafe]"
  have hE: "crawl_district Inr example_fetch_page ?E (example_clock ?E) = Inl (KeyError ''id'')"
    by (simp add: example_crawls)
  have hA: "crawl_district Inr example_fetch_page ?A (example_clock ?A) = Inr ?cafes"
    by (simp add: example_crawls)
  have hU: "upsert_cafes ?cafes (snd (run Inr example_fetch_page example_clock [] failing_store)) =
      (Inl PyMongoError, empty_store)"
    by (simp add: example_upsert_failing)
  have all: "\<forall>z\<in>set [?E, ?E]. \<exists>e. crawl_district Inr example_fetch_page z (example_clock z) = Inl e"
    using hE by simp
  have exE: "\<exists>e. crawl_district Inr example_fetch_page ?E (example_clock ?E) = Inl e"
    using hE by blast
  note first = failure_isolation
    [where pyfloat = Inr and fetch_page = example_fetch_page and clock = example_clock
       and catalog = "[?E, ?E]" and d = ?E and pre = "[?A]"
       and post = "[example_district ''C'']" and s = empty_store]
  note second = failure_isolation
    [where pyfloat = Inr and fetch_page = example_fetch_page and clock = example_clock
       and catalog = "[?A]" and d = ?A and pre = "[]"
       and post = "[example_district ''B'']" and s = failing_store]
  from first all have c3: "run Inr example_fetch_page example_clock [?E, ?E] empty_store =
     (\<lparr>total_fetched = 0, inserted = 0, updated = 0,
       failed_districts = map d_name [?E, ?E]\<rparr>, empty_store)"
    by blast
  from first exE have c4:
    "snd (run Inr example_fetch_page example_clock ([?A] @ ?E # [example_district ''C''])
          empty_store) =
     snd (run Inr example_fetch_page example_clock ([?A] @ [example_district ''C''])
          empty_store)"
    "inserted (fst (run Inr example_fetch_page example_clock
          ([?A] @ ?E # [example_district ''C'']) empty_store)) =
     inserted (fst (run Inr example_fetch_page example_clock
          ([?A] @ [example_district ''C'']) empty_store))"
    "failed_districts (fst (run Inr example_fetch_page example_clock
          ([?A] @ ?E # [example_district ''C'']) empty_store)) =
     failed_districts (fst (run Inr example_fetch_page example_clock [?A] empty_store)) @
     d_name ?E #
     failed_districts (fst (run Inr example_fetch_page example_clock [example_district ''C'']
          (snd (run Inr example_fetch_page example_clock [?A] empty_store))))"
    by blast+
  from second hA hU have c5:
    "total_fetched (fst (run Inr example_fetch_page example_clock
          ([] @ ?A # [example_district ''B'']) failing_store)) =
     total_fetched (fst (run Inr example_fetch_page example_clock [] failing_store)) +
     length ?cafes +
     total_fetched (fst (run Inr example_fetch_page example_clock [example_district ''B'']
          empty_store))"
    "inserted (fst (run Inr example_fetch_page example_clock
          ([] @ ?A # [example_district ''B'']) failing_store)) =
     inserted (fst (run Inr example_fetch_page example_clock [] failing_store)) +
     inserted (fst (run Inr example_fetch_page example_clock [example_district ''B'']
          empty_store))"
    "failed_districts (fst (run Inr example_fetch_page example_clock
          ([] @ ?A # [example_district ''B'']) failing_store)) =
     failed_districts (fst (run Inr example_fetch_page example_clock [] failing_store)) @
     d_name ?A #
     failed_districts (fst (run Inr example_fetch_page example_clock [example_district ''B'']
          empty_store))"
    by blast+
  from hE hA hU c3 c4 c5 show ?thesis by (intro conjI)
qed

text \<open>
  C8 (invariant of the store). After any sequence of reconciliations, whether or not a call
  to the store raises in between, no two documents share a \<^verbatim>\<open>kakao_id\<close> and every
  document has \<^verbatim>\<open>collected_at\<close> not after \<^verbatim>\<open>updated_at\<close>, provided that this holds of the
  store at the start and that the time stamps of the cafes do not decrease along the
  sequence, starting not before those stored.
\<close>

theorem store_invariant_preserved:
  assumes "distinct (row_ids (rows s))"
    and "\<forall>r\<in>set (rows s). collected_at r \<le> updated_at (doc r)"
    and "sorted (map updated_at (concat batches))"
    and "\<forall>r\<in>set (rows s). \<forall>c\<in>set (concat batches). updated_at (doc r) \<le> updated_at c"
  shows "distinct (row_ids (rows (upsert_batches batches s))) \<and>
         (\<forall>r\<in>set (rows (upsert_batches batches s)). collected_at r \<le> updated_at (doc r))"
proof -
  from assms(1,2) have "store_inv (rows s)" by (simp add: store_inv_def)
  moreover from assms(4) have "not_after (rows s) (concat batches)" by (simp add: not_after_def)
  ultimately have "store_inv (rows (upsert_batches batches s))"
    using assms(3) by (simp add: store_inv_upsert_batches)
  then show ?thesis by (simp add: store_inv_def)
qed

theorem store_invariant_preserved_witness:
  "(distinct (row_ids (rows example_store)) \<and>
    list_all (\<lambda>r. collected_at r \<le> updated_at (doc r)) (rows example_store) \<and>
    sorted (map updated_at (concat
      [[example_cafe ''1'' ''B'' 7, example_cafe ''2'' ''B'' 7],
       [example_cafe ''1'' ''A'' 9 :: string cafe]])) \<and>
    list_all (\<lambda>r. list_all (\<lambda>c. updated_at (doc r) \<le> updated_at c) (concat
      [[example_cafe ''1'' ''B'' 7, example_cafe ''2'' ''B'' 7], [example_cafe ''1'' ''A'' 9]]))
      (rows example_store)) \<and>
   distinct (row_ids (rows (upsert_batches
     [[example_cafe ''1'' ''B'' 7, example_cafe ''2'' ''B'' 7], [example_cafe ''1'' ''A'' 9]]
     example_store))) \<and>
   list_all (\<lambda>r. collected_at r \<le> updated_at (doc r)) (rows (upsert_batches
     [[example_cafe ''1'' ''B'' 7, example_cafe ''2'' ''B'' 7], [example_cafe ''1'' ''A'' 9]]
     example_store))"
proof -
  let ?bs = "[[example_cafe ''1'' ''B'' 7, example_cafe ''2'' ''B'' 7],
              [example_cafe ''1'' ''A'' 9 :: string cafe]]"
  have h1: "distinct (row_ids (rows example_store))"
    by (simp add: example_store_def)
  have h2: "\<forall>r\<in>set (rows example_store). collected_at r \<le> updated_at (doc r)"
    by (simp add: example_store_def example_cafe_def)
  have h3: "sorted (map updated_at (concat ?bs))"
    by (simp add: example_cafe_def)
  have h4: "\<forall>r\<in>set (rows example_store). \<forall>c\<in>set (concat ?bs).
      updated_at (doc r) \<le> updated_at c"
    by (simp add: example_store_def example_cafe_def)
  from store_invariant_preserved [OF h1 h2 h3 h4] h1 h2 h3 h4 show ?thesis
    unfolding list_all_iff by blast
qed

text \<open>
  C9 (places without a required key). The claim fails for a place that lacks
  \<^verbatim>\<open>place_name\<close>, \<^verbatim>\<open>x\<close> or \<^verbatim>\<open>y\<close> but repeats an id already seen: it is skipped
  before it is normalised, nothing raises, and the district is reconciled.
\<close>

theorem malformed_place_counterexample:
  "(example_place ''1'')(''place_name'' := None) \<in>
     set (crawl_pages
       (example_fetch_page (d_x (example_district ''D'')) (d_y (example_district ''D'')))
       page_range []) \<and>
   ((example_place ''1'')(''place_name'' := None)) ''place_name'' = None \<and>
   crawl_district Inr example_fetch_page (example_district ''D'')
     (example_clock (example_district ''D'')) = Inr [example_cafe ''1'' ''D'' 20] \<and>
   run Inr example_fetch_page example_clock [example_district ''D''] empty_store =
     (\<lparr>total_fetched = 1, inserted = 1, updated = 0, failed_districts = []\<rparr>,
      \<lparr>rows = [\<lparr>doc = example_cafe ''1'' ''D'' 20, collected_at = 20\<rparr>], faults = []\<rparr>)"
  by (simp add: example_pages_D example_run_D example_crawls)

text \<open>
  C9, amended. When an accumulated place lacks \<^verbatim>\<open>id\<close>, or is the first place with its id
  and lacks \<^verbatim>\<open>place_name\<close>, \<^verbatim>\<open>x\<close> or \<^verbatim>\<open>y\<close>, the collection of the district raises;
  the district is listed as failed at its position, and the store and the counts of the run
  are those of the run without the district.
\<close>

theorem malformed_place_fails_district:
  assumes "q \<in> set (crawl_pages (fetch_page (d_x d) (d_y d)) page_range [])"
    and "q ''id'' = None \<or>
         (\<exists>k. first_place k (crawl_pages (fetch_page (d_x d) (d_y d)) page_range []) = Some q \<and>
              (q ''place_name'' = None \<or> q ''x'' = None \<or> q ''y'' = None))"
  shows "(\<exists>e. crawl_district pyfloat fetch_page d (clock d) = Inl e) \<and>
         snd (run pyfloat fetch_page clock (pre @ d # post) s) =
           snd (run pyfloat fetch_page clock (pre @ post) s) \<and>
         total_fetched (fst (run pyfloat fetch_page clock (pre @ d # post) s)) =
           total_fetched (fst (run pyfloat fetch_page clock (pre @ post) s)) \<and>
         inserted (fst (run pyfloat fetch_page clock (pre @ d # post) s)) =
           inserted (fst (run pyfloat fetch_page clock (pre @ post) s)) \<and>
         updated (fst (run pyfloat fetch_page clock (pre @ d # post) s)) =
           updated (fst (run pyfloat fetch_page clock (pre @ post) s)) \<and>
         failed_districts (fst (run pyfloat fetch_page clock (pre @ d # post) s)) =
           failed_districts (fst (run pyfloat fetch_page clock pre s)) @ d_name d #
           failed_districts (fst (run pyfloat fetch_page clock post
             (snd (run pyfloat fetch_page clock pre s)))) \<and>
         failed_districts (fst (run pyfloat fetch_page clock (pre @ post) s)) =
           failed_districts (fst (run pyfloat fetch_page clock pre s)) @
           failed_districts (fst (run pyfloat fetch_page clock post
             (snd (run pyfloat fetch_page clock pre s))))"
proof -
  from crawl_district_malformed [where fetch_page = fetch_page and d = d, OF assms] obtain e where
    e: "crawl_district pyfloat fetch_page d (clock d) = Inl e" by blast
  note iso = run_isolates_collect_failure [where clock = clock, OF e, of pre post s]
  from e have "\<exists>e. crawl_district pyfloat fetch_page d (clock d) = Inl e" by blast
  then show ?thesis
    unfolding iso by (simp add: no_result_def)
qed

theorem malformed_place_fails_district_witness:
  "((example_place ''6'')(''id'' := None) \<in>
      set (crawl_pages
        (example_fetch_page (d_x (example_district ''E'')) (d_y (example_district ''E'')))
        page_range []) \<and>
    ((example_place ''6'')(''id'' := None)) ''id'' = None) \<and>
   (\<exists>e. crawl_district Inr example_fetch_page (example_district ''E'')
          (example_clock (example_district ''E'')) = Inl e) \<and>
   snd (run Inr example_fetch_page example_clock
          ([example_district ''A''] @ example_district ''E'' # [example_district ''C''])
          empty_store) =
     snd (run Inr example_fetch_page example_clock
          ([example_district ''A''] @ [example_district ''C'']) empty_store) \<and>
   total_fetched (fst (run Inr example_fetch_page example_clock
          ([example_district ''A''] @ example_district ''E'' # [example_district ''C''])
          empty_store)) =
     total_fetched (fst (run Inr example_fetch_page example_clock
          ([example_district ''A''] @ [example_district ''C'']) empty_store)) \<and>
   failed_districts (fst (run Inr example_fetch_page example_clock
          ([example_district ''A''] @ example_district ''E'' # [example_district ''C''])
          empty_store)) =
     failed_districts (fst (run Inr example_fetch_page example_clock
          [example_district ''A''] empty_store)) @ d_name (example_district ''E'') #
     failed_districts (fst (run Inr example_fetch_page example_clock [example_district ''C'']
          (snd (run Inr example_fetch_page example_clock [example_district ''A'']
            empty_store))))"
proof -
  let ?q = "(example_place ''6'')(''id'' := None)"
  have h1: "?q \<in> set (crawl_pages
        (example_fetch_page (d_x (example_district ''E'')) (d_y (example_district ''E'')))
        page_range [])"
    by (simp add: example_pages_E)
  have h2: "?q ''id'' = None" by simp
  then have h2': "?q ''id'' = None \<or>
      (\<exists>k. first_place k (crawl_pages
          (example_fetch_page (d_x (example_district ''E'')) (d_y (example_district ''E'')))
          page_range []) = Some ?q \<and>
         (?q ''place_name'' = None \<or> ?q ''x'' = None \<or> ?q ''y'' = None))"
    by (rule disjI1)
  from malformed_place_fails_district
    [where fetch_page = example_fetch_page and d = "example_district ''E''" and q = ?q
       and pyfloat = Inr and clock = example_clock and pre = "[example_district ''A'']"
       and post = "[example_district ''C'']" and s = empty_store, OF h1 h2']
    h1 h2
  show ?thesis by blast
qed

text \<open>
  C10 (constant category and source). Every cafe that \<^verbatim>\<open>_build_cafe_doc\<close> returns has
  \<^verbatim>\<open>category_code\<close> \<^verbatim>\<open>CE7\<close> and \<^verbatim>\<open>source\<close> \<^verbatim>\<open>kakao\<close>, and the category code that the
  place itself carries (the key \<^verbatim>\<open>category_group_code\<close> of the API) has no effect on the
  result.
\<close>

theorem build_cafe_doc_constants:
  assumes "build_cafe_doc pyfloat place dname now = Inr c"
  shows "category_code c = ''CE7'' \<and> source c = ''kakao'' \<and>
         build_cafe_doc pyfloat (place(''category_group_code'' \<mapsto> g)) dname now = Inr c"
proof -
  from assms obtain pid pname sx fx sy fy where
    f: "place ''id'' = Some pid" "place ''place_name'' = Some pname"
    "place ''x'' = Some sx" "pyfloat sx = Inr fx"
    "place ''y'' = Some sy" "pyfloat sy = Inr fy"
    and c: "c = \<lparr> kakao_id = pid, name = pname, category_code = CAFE_CATEGORY_CODE,
           category_name = dict_get place ''category_name'' '''',
           address = dict_get place ''address_name'' '''',
           road_address = dict_get place ''road_address_name'' '''',
           phone = dict_get place ''phone'' '''',
           cafe_x = fx, cafe_y = fy,
           place_url = dict_get place ''place_url'' '''',
           district = dname, source = ''kakao'', updated_at = now \<rparr>"
    by (rule build_cafe_doc_Inr)
  let ?place' = "place(''category_group_code'' \<mapsto> g)"
  have "build_cafe_doc pyfloat ?place' dname now = Inr c"
    unfolding c
    using f by (simp add: build_cafe_doc_def dict_get_def)
  then show ?thesis by (simp add: c CAFE_CATEGORY_CODE_def)
qed

theorem build_cafe_doc_constants_witness:
  "build_cafe_doc Inr ((example_place ''1'')(''category_group_code'' \<mapsto> ''FD6'')) ''A'' 5 =
     Inr (example_cafe ''1'' ''A'' 5) \<and>
   category_code (example_cafe ''1'' ''A'' 5 :: string cafe) = ''CE7'' \<and>
   source (example_cafe ''1'' ''A'' 5 :: string cafe) = ''kakao'' \<and>
   build_cafe_doc Inr ((example_place ''1'')(''category_group_code'' \<mapsto> ''CE7'')) ''A'' 5 =
     Inr (example_cafe ''1'' ''A'' 5)"
proof -
  have h: "build_cafe_doc Inr ((example_place ''1'')(''category_group_code'' \<mapsto> ''FD6'')) ''A'' 5 =
     Inr (example_cafe ''1'' ''A'' 5)"
    by (simp add: build_cafe_doc_def example_place_def example_cafe_def dict_get_def
        CAFE_CATEGORY_CODE_def)
  from build_cafe_doc_constants [OF h, of "''CE7''"] h show ?thesis by simp
qed

end
